theory Spec2Isabelle
  imports
    Complex_Main
    "HOL-Library.Sublist"
    "HOL-Library.Char_ord"
    "HOL-Library.List_Lexorder"
    "HOL-Library.Product_Lexorder"
begin

section \<open>Text primitives of the Python runtime\<close>

text \<open>
  \<^verbatim>\<open>scripts/data_cleaning.py\<close> works on pandas tables whose column labels and
  cells are Python strings. A Python \<^verbatim>\<open>str\<close> is modelled as a \<^typ>\<open>string\<close>.
  The test \<^verbatim>\<open>kw in col\<close> is \<^term>\<open>sublist kw col\<close>: \<open>kw\<close> occurs in \<open>col\<close>
  as a contiguous run of characters.

  The script calls into the runtime for everything that depends on the Unicode tables
  (\<^verbatim>\<open>str.strip\<close>, \<^verbatim>\<open>str.lower\<close>, \<^verbatim>\<open>str.upper\<close>,
  \<^verbatim>\<open>unicodedata.normalize('NFKD', _)\<close>, \<^verbatim>\<open>unicodedata.combining\<close>)
  and for converting between numbers and text (\<^verbatim>\<open>pd.to_numeric\<close> on a string,
  \<^verbatim>\<open>astype(str)\<close> on a number). None of these is code of the repository, so
  the model takes them as a parameter \<open>E\<close> of type \<open>runtime\<close>.
\<close>

record runtime =
  str_strip :: "string \<Rightarrow> string"
  str_lower :: "string \<Rightarrow> string"
  str_upper :: "string \<Rightarrow> string"
  normalize_NFKD :: "string \<Rightarrow> string"
  combining :: "char \<Rightarrow> bool"
  parse_number :: "string \<Rightarrow> rat option"
  number_str :: "rat \<Rightarrow> string"

text \<open>
  \<^verbatim>\<open>remove_accents\<close> (lines 55-65): decompose, then drop the combining marks.
  Every caller passes a \<^verbatim>\<open>str\<close>, so the \<^verbatim>\<open>isinstance\<close> branch is not taken.
\<close>

definition remove_accents :: "runtime \<Rightarrow> string \<Rightarrow> string" where
  "remove_accents E text = filter (\<lambda>c. \<not> combining E c) (normalize_NFKD E text)"

subsection \<open>The runtime on ASCII text\<close>

text \<open>
  The closed examples of this theory use ASCII labels and cells only. On ASCII text the
  runtime behaves as \<open>ascii_runtime\<close>: NFKD leaves the text alone, no character is a
  combining mark, case conversion touches the 26 letters, and \<^verbatim>\<open>strip\<close> removes
  the ASCII white space at both ends. Numbers are converted for plain decimal integers,
  which is all the examples need.
\<close>

definition upper_letters :: string where
  "upper_letters = ''ABCDEFGHIJKLMNOPQRSTUVWXYZ''"

definition lower_letters :: string where
  "lower_letters = ''abcdefghijklmnopqrstuvwxyz''"

definition ascii_lower :: "string \<Rightarrow> string" where
  "ascii_lower = map (\<lambda>c. case map_of (zip upper_letters lower_letters) c of
                              Some d \<Rightarrow> d | None \<Rightarrow> c)"

definition ascii_upper :: "string \<Rightarrow> string" where
  "ascii_upper = map (\<lambda>c. case map_of (zip lower_letters upper_letters) c of
                              Some d \<Rightarrow> d | None \<Rightarrow> c)"

definition ascii_space :: "char \<Rightarrow> bool" where
  "ascii_space c = (c \<in> set [CHR 0x09, CHR 0x0A, CHR 0x0B, CHR 0x0C, CHR 0x0D,
                              CHR 0x1C, CHR 0x1D, CHR 0x1E, CHR 0x1F, CHR 0x20])"

definition ascii_strip :: "string \<Rightarrow> string" where
  "ascii_strip s = rev (dropWhile ascii_space (rev (dropWhile ascii_space s)))"

definition digit_value :: "char \<Rightarrow> nat option" where
  "digit_value c = map_of (zip ''0123456789'' [0, 1, 2, 3, 4, 5, 6, 7, 8, 9]) c"

fun digits_value :: "nat \<Rightarrow> string \<Rightarrow> nat option" where
  "digits_value acc [] = Some acc"
| "digits_value acc (c # cs) =
     (case digit_value c of None \<Rightarrow> None | Some d \<Rightarrow> digits_value (10 * acc + d) cs)"

definition ascii_parse_number :: "string \<Rightarrow> rat option" where
  "ascii_parse_number s =
     (case ascii_strip s of
        [] \<Rightarrow> None
      | c # cs \<Rightarrow>
          if c = CHR ''-'' \<and> cs \<noteq> [] then map_option (\<lambda>n. - of_nat n) (digits_value 0 cs)
          else map_option of_nat (digits_value 0 (c # cs)))"

fun nat_digits :: "nat \<Rightarrow> nat \<Rightarrow> string" where
  "nat_digits 0 n = []"
| "nat_digits (Suc fuel) n =
     (if n < 10 then [''0123456789'' ! n]
      else nat_digits fuel (n div 10) @ [''0123456789'' ! (n mod 10)])"

definition ascii_number_str :: "rat \<Rightarrow> string" where
  "ascii_number_str x =
     (let n = nat \<bar>\<lfloor>x\<rfloor>\<bar> in (if x < 0 then ''-'' else []) @ nat_digits (Suc n) n)"

definition ascii_runtime :: runtime where
  "ascii_runtime = \<lparr> str_strip = ascii_strip, str_lower = ascii_lower,
     str_upper = ascii_upper, normalize_NFKD = (\<lambda>s. s), combining = (\<lambda>c. False),
     parse_number = ascii_parse_number, number_str = ascii_number_str \<rparr>"

section \<open>Tables\<close>

text \<open>
  A pandas \<^verbatim>\<open>DataFrame\<close> is a list of column labels and a list of rows, each row
  holding one cell per column. A cell is a string, a number or the missing value
  \<^verbatim>\<open>NaN\<close>. Numbers are exact rationals: the model does not follow the rounding
  error of binary floating point, nor overflow to infinity of the sums.
  Labels are what \<^verbatim>\<open>str(col)\<close> gives.
\<close>

datatype cell = Str string | Num rat | NaN

record frame =
  columns :: "string list"
  rows :: "cell list list"

datatype error =
    KeyError
  | ValueError
  | FileNotFoundError
  | TypeError
  | ParseError
  | NotModelled

section \<open>Header sniffing: the validity predicate\<close>

text \<open>
  \<^verbatim>\<open>has_valid_columns\<close> (lines 164-176). \<^verbatim>\<open>df.empty\<close> holds when either
  axis has length 0. The generator
  \<^verbatim>\<open>sum(1 for col in cols_lower for kw in keywords if kw in col)\<close>
  adds one for every pair of a column and a keyword found in it.
\<close>

definition keywords_list :: "string list" where
  "keywords_list = [''art'', ''prod'', ''desc'', ''prec'', ''cant'', ''total'']"

definition df_empty :: "frame \<Rightarrow> bool" where
  "df_empty df = (columns df = [] \<or> rows df = [])"

definition has_valid_columns :: "runtime \<Rightarrow> frame \<Rightarrow> bool" where
  "has_valid_columns E df =
     (if df_empty df \<or> length (columns df) < 3 then False
      else
        let cols_lower = map (\<lambda>c. remove_accents E (str_lower E c)) (columns df);
            matches = length [(col, kw). col \<leftarrow> cols_lower, kw \<leftarrow> keywords_list, sublist kw col]
        in matches \<ge> 2)"

text \<open>
  What the comment on line 176 (\<^verbatim>\<open># Al menos 2 columnas validas\<close>) and the
  specification ask for: the number of columns that contain some keyword.
\<close>

definition valid_column_count :: "runtime \<Rightarrow> frame \<Rightarrow> nat" where
  "valid_column_count E df =
     length (filter (\<lambda>c. \<exists>kw \<in> set keywords_list. sublist kw (remove_accents E (str_lower E c)))
               (columns df))"

section \<open>Column normalization\<close>

text \<open>
  \<^verbatim>\<open>super_normalize_columns\<close> (lines 68-157). Step 1 replaces every label by its
  trimmed, accent-free form. Step 2 walks the new labels in order and fills the
  dictionary \<^verbatim>\<open>col_mapping\<close>, keyed by label; \<^verbatim>\<open>articulo_found\<close> is the flag
  that lets only the first matching column take the role of \<^verbatim>\<open>Articulo\<close>. The
  dictionary is then applied to every label at once by \<^verbatim>\<open>df.rename\<close>, and the result
  is refused with \<^verbatim>\<open>KeyError\<close> when no label is \<^verbatim>\<open>Articulo\<close>.
\<close>

definition articulo_match :: "string \<Rightarrow> bool" where
  "articulo_match col_clean =
     (sublist ''art'' col_clean \<or> sublist ''prod'' col_clean \<or>
      sublist ''codigo'' col_clean \<or> sublist ''sku'' col_clean)"

text \<open>The \<^verbatim>\<open>if\<close>/\<^verbatim>\<open>elif\<close> chain of lines 119-134, in its order.\<close>

definition other_target :: "string \<Rightarrow> string option" where
  "other_target col_clean =
     (if sublist ''desc'' col_clean \<or> sublist ''nombre'' col_clean then Some ''Descripcion''
      else if sublist ''cant'' col_clean \<and> \<not> sublist ''total'' col_clean then Some ''Cantidad''
      else if col_clean = ''precio'' \<or> col_clean = ''precio unitario'' \<or> col_clean = ''preciou''
        then Some ''Precio''
      else if (sublist ''total'' col_clean \<and> sublist ''prec'' col_clean) \<or>
              col_clean = ''total'' \<or> col_clean = ''importe''
        then Some ''Total_precio''
      else None)"

definition col_clean_of :: "runtime \<Rightarrow> string \<Rightarrow> string" where
  "col_clean_of E col = remove_accents E (str_lower E col)"

fun fuzzy_detection ::
  "runtime \<Rightarrow> string list \<Rightarrow> (string \<rightharpoonup> string) \<Rightarrow> bool \<Rightarrow> (string \<rightharpoonup> string)" where
  "fuzzy_detection E [] col_mapping articulo_found = col_mapping"
| "fuzzy_detection E (col # cols) col_mapping articulo_found =
     (if \<not> articulo_found \<and> articulo_match (col_clean_of E col)
      then fuzzy_detection E cols (col_mapping(col \<mapsto> ''Articulo'')) True
      else (case other_target (col_clean_of E col) of
              Some target \<Rightarrow> fuzzy_detection E cols (col_mapping(col \<mapsto> target)) articulo_found
            | None \<Rightarrow> fuzzy_detection E cols col_mapping articulo_found))"

definition rename_label :: "(string \<rightharpoonup> string) \<Rightarrow> string \<Rightarrow> string" where
  "rename_label col_mapping col = (case col_mapping col of Some target \<Rightarrow> target | None \<Rightarrow> col)"

definition new_columns :: "runtime \<Rightarrow> frame \<Rightarrow> string list" where
  "new_columns E df = map (\<lambda>col. remove_accents E (str_strip E col)) (columns df)"

definition super_normalize_columns :: "runtime \<Rightarrow> frame \<Rightarrow> error + frame" where
  "super_normalize_columns E df =
     (let cols = new_columns E df;
          col_mapping = fuzzy_detection E cols Map.empty False;
          final = map (rename_label col_mapping) cols
      in if ''Articulo'' \<notin> set final then Inl KeyError
         else Inr (df\<lparr>columns := final\<rparr>))"

text \<open>
  The role test as the loop applies it to an original label: the label is trimmed and
  freed of accents (step 1), then lowercased and freed of accents again (step 2).
\<close>

definition claims_articulo :: "runtime \<Rightarrow> string \<Rightarrow> bool" where
  "claims_articulo E col =
     articulo_match (col_clean_of E (remove_accents E (str_strip E col)))"

section \<open>The Pareto/ABC engine\<close>

subsection \<open>Numbers\<close>

text \<open>
  \<^verbatim>\<open>Series.round(n)\<close> scales by \<open>10 ^ n\<close>, rounds to the nearest integer with
  ties going to the even one (\<^verbatim>\<open>numpy.rint\<close>), and scales back.
\<close>

definition rint :: "rat \<Rightarrow> int" where
  "rint x =
     (let f = \<lfloor>x\<rfloor>; d = x - of_int f
      in if d < 1 / 2 then f else if d > 1 / 2 then f + 1 else if even f then f else f + 1)"

definition round_dec :: "nat \<Rightarrow> rat \<Rightarrow> rat" where
  "round_dec n x = of_int (rint (x * 10 ^ n)) / 10 ^ n"

text \<open>
  A quotient of two columns is a float that may be infinite or undefined: pandas divides
  by zero without raising, \<open>0 / 0\<close> is \<^verbatim>\<open>NaN\<close> and \<open>x / 0\<close> is \<open>\<plusminus>inf\<close>.
  \<^verbatim>\<open>fillna(0)\<close> replaces \<^verbatim>\<open>NaN\<close> only; rounding leaves the infinities alone.
\<close>

datatype float_val = Fin rat | PosInf | NegInf | NotANumber

definition pd_divide :: "rat \<Rightarrow> rat \<Rightarrow> float_val" where
  "pd_divide a b =
     (if b \<noteq> 0 then Fin (a / b)
      else if a = 0 then NotANumber else if a > 0 then PosInf else NegInf)"

fun fillna0 :: "float_val \<Rightarrow> float_val" where
  "fillna0 NotANumber = Fin 0"
| "fillna0 v = v"

fun round_float :: "nat \<Rightarrow> float_val \<Rightarrow> float_val" where
  "round_float n (Fin x) = Fin (round_dec n x)"
| "round_float n v = v"

subsection \<open>Rows of the three tables\<close>

text \<open>
  The engine reads the columns \<^verbatim>\<open>Articulo\<close>, \<^verbatim>\<open>Sucursal\<close>, \<^verbatim>\<open>Venta_Neta\<close>
  and, when present, \<^verbatim>\<open>Cantidad\<close> and \<^verbatim>\<open>Descripcion\<close> of the clean table. A
  \<open>sale\<close> is one row of it, restricted to these columns.
\<close>

record sale =
  Articulo :: string
  Sucursal :: string
  Venta_Neta :: rat
  Cantidad :: rat
  Descripcion :: cell

record fact_row =
  fact_Articulo :: string
  fact_Sucursal :: string
  fact_Venta_Neta :: rat
  fact_Venta_Bruta :: rat
  fact_Venta_Devolucion :: rat
  fact_Cantidad :: "rat option"

text \<open>The candidate dimension table \<^verbatim>\<open>dim_articulos\<close> of lines 464-484.\<close>

record dim_cand =
  cand_Articulo :: string
  cand_Venta_Neta_Total :: rat
  cand_Venta_Bruta_Total :: rat
  cand_Venta_Devolucion_Total :: rat
  cand_Tasa_Devolucion :: float_val
  cand_Descripcion :: "cell option"

datatype abc = A | B | C

text \<open>The ranked dimension table \<^verbatim>\<open>dim_pareto\<close>, exported as \<^verbatim>\<open>dim_articulos\<close>.\<close>

record dim_row =
  dim_Articulo :: string
  dim_Descripcion :: "cell option"
  Ranking :: nat
  Clasificacion_ABC :: abc
  Venta_Neta_Total :: rat
  Venta_Bruta_Total :: rat
  Venta_Devolucion_Total :: rat
  Tasa_Devolucion :: float_val
  Porcentaje_Articulo_Global :: rat
  Porcentaje_Acumulado :: rat

subsection \<open>Step 1: the fact table\<close>

text \<open>Lines 411-412: the two auxiliary columns.\<close>

definition venta_bruta :: "rat \<Rightarrow> rat" where
  "venta_bruta x = (if x > 0 then x else 0)"

definition venta_devolucion :: "rat \<Rightarrow> rat" where
  "venta_devolucion x = (if x < 0 then \<bar>x\<bar> else 0)"

text \<open>
  \<^verbatim>\<open>df.groupby(['Articulo', 'Sucursal']).agg(...)\<close>: one row per distinct key, the
  keys in ascending order, each column summed over the rows of the key. \<open>fact_sums\<close>
  is the table before lines 432-436 round it, \<open>fact_ventas\<close> the table after.
\<close>

definition group_keys :: "sale list \<Rightarrow> (string \<times> string) list" where
  "group_keys df = sort (remdups (map (\<lambda>r. (Articulo r, Sucursal r)) df))"

definition fact_sums :: "bool \<Rightarrow> sale list \<Rightarrow> fact_row list" where
  "fact_sums has_cantidad df =
     map (\<lambda>(a, s).
            let g = filter (\<lambda>r. Articulo r = a \<and> Sucursal r = s) df
            in \<lparr> fact_Articulo = a, fact_Sucursal = s,
                 fact_Venta_Neta = sum_list (map Venta_Neta g),
                 fact_Venta_Bruta = sum_list (map (\<lambda>r. venta_bruta (Venta_Neta r)) g),
                 fact_Venta_Devolucion = sum_list (map (\<lambda>r. venta_devolucion (Venta_Neta r)) g),
                 fact_Cantidad = (if has_cantidad then Some (sum_list (map Cantidad g)) else None) \<rparr>)
         (group_keys df)"

definition round_fact :: "fact_row \<Rightarrow> fact_row" where
  "round_fact f =
     f \<lparr> fact_Venta_Neta := round_dec 2 (fact_Venta_Neta f),
         fact_Venta_Bruta := round_dec 2 (fact_Venta_Bruta f),
         fact_Venta_Devolucion := round_dec 2 (fact_Venta_Devolucion f),
         fact_Cantidad := map_option (round_dec 0) (fact_Cantidad f) \<rparr>"

definition fact_ventas :: "bool \<Rightarrow> sale list \<Rightarrow> fact_row list" where
  "fact_ventas has_cantidad df = map round_fact (fact_sums has_cantidad df)"

subsection \<open>Step 2: the dimension table, from the fact table\<close>

text \<open>
  \<^verbatim>\<open>df.groupby('Articulo')['Descripcion'].first()\<close>: the first value of the group
  that is not missing.
\<close>

definition desc_map :: "sale list \<Rightarrow> string \<Rightarrow> cell" where
  "desc_map df a =
     (case filter (\<lambda>c. c \<noteq> NaN) (map Descripcion (filter (\<lambda>r. Articulo r = a) df)) of
        [] \<Rightarrow> NaN | c # _ \<Rightarrow> c)"

definition dim_articulos :: "fact_row list \<Rightarrow> (string \<Rightarrow> cell) option \<Rightarrow> dim_cand list" where
  "dim_articulos facts descs =
     map (\<lambda>a.
            let g = filter (\<lambda>f. fact_Articulo f = a) facts;
                neta = sum_list (map fact_Venta_Neta g);
                bruta = sum_list (map fact_Venta_Bruta g);
                devolucion = sum_list (map fact_Venta_Devolucion g)
            in \<lparr> cand_Articulo = a,
                 cand_Venta_Neta_Total = neta,
                 cand_Venta_Bruta_Total = bruta,
                 cand_Venta_Devolucion_Total = devolucion,
                 cand_Tasa_Devolucion = round_float 4 (fillna0 (pd_divide devolucion bruta)),
                 cand_Descripcion = map_option (\<lambda>m. m a) descs \<rparr>)
         (sort (remdups (map fact_Articulo facts)))"

text \<open>
  Lines 500-507: every row starts in class \<open>C\<close>; the rows up to 0.80 are set to \<open>A\<close>,
  then the rows in \<open>]0.80, 0.95]\<close> are set to \<open>B\<close>.
\<close>

definition classify :: "rat \<Rightarrow> abc" where
  "classify p =
     (let c0 = C;
          c1 = (if p \<le> 80 / 100 then A else c0);
          c2 = (if p > 80 / 100 \<and> p \<le> 95 / 100 then B else c1)
      in c2)"

text \<open>
  Lines 496-510 over the sorted candidates: the share of each item rounded to 4 places,
  the running sum of the rounded shares (\<^verbatim>\<open>cumsum\<close>, in \<open>acc\<close>) rounded to 4 places,
  the class, and the rank counted from 1.
\<close>

fun pareto_rows :: "rat \<Rightarrow> rat \<Rightarrow> nat \<Rightarrow> dim_cand list \<Rightarrow> dim_row list" where
  "pareto_rows total_positivo acc k [] = []"
| "pareto_rows total_positivo acc k (c # cs) =
     (let share = round_dec 4 (cand_Venta_Neta_Total c / total_positivo);
          cum = acc + share
      in \<lparr> dim_Articulo = cand_Articulo c,
           dim_Descripcion = cand_Descripcion c,
           Ranking = k,
           Clasificacion_ABC = classify (round_dec 4 cum),
           Venta_Neta_Total = cand_Venta_Neta_Total c,
           Venta_Bruta_Total = cand_Venta_Bruta_Total c,
           Venta_Devolucion_Total = cand_Venta_Devolucion_Total c,
           Tasa_Devolucion = cand_Tasa_Devolucion c,
           Porcentaje_Articulo_Global = share,
           Porcentaje_Acumulado = round_dec 4 cum \<rparr>
         # pareto_rows total_positivo cum (Suc k) cs)"

text \<open>
  The engine on the rows of a clean table (lines 411-581). \<open>has_cantidad\<close> and
  \<open>has_descripcion\<close> say whether the table has the two optional columns.
  \<^verbatim>\<open>sort_values(ascending=False)\<close> is modelled by a stable sort; pandas does not
  promise an order among items with equal totals, and no theorem below depends on it.
  The result is the pair of \<^verbatim>\<open>fact_ventas_final\<close> and \<^verbatim>\<open>dim_articulos_final\<close>.
\<close>

definition candidates :: "bool \<Rightarrow> bool \<Rightarrow> sale list \<Rightarrow> dim_cand list" where
  "candidates has_cantidad has_descripcion df =
     dim_articulos (fact_ventas has_cantidad df)
       (if has_descripcion then Some (desc_map df) else None)"

definition pareto_of_sales ::
  "bool \<Rightarrow> bool \<Rightarrow> sale list \<Rightarrow> error + (fact_row list \<times> dim_row list)" where
  "pareto_of_sales has_cantidad has_descripcion df =
     (let facts = fact_ventas has_cantidad df;
          dim_pareto = filter (\<lambda>c. cand_Venta_Neta_Total c > 0)
                         (candidates has_cantidad has_descripcion df)
      in if dim_pareto = [] then Inl ValueError
         else
           let sorted = sort_key (\<lambda>c. - cand_Venta_Neta_Total c) dim_pareto;
               total_positivo = sum_list (map cand_Venta_Neta_Total sorted);
               dim = pareto_rows total_positivo 0 1 sorted;
               articulos_en_dim = set (map dim_Articulo dim);
               fact_filtrado = filter (\<lambda>f. fact_Articulo f \<in> articulos_en_dim) facts
           in Inr (fact_filtrado, dim))"

subsection \<open>The engine on a table\<close>

text \<open>
  \<open>lookup cols row label\<close> is the cell of \<open>row\<close> under the column \<open>label\<close>, and
  \<^verbatim>\<open>NaN\<close> when the table has no such column (as in a concatenation, below).
\<close>

definition lookup :: "string list \<Rightarrow> cell list \<Rightarrow> string \<Rightarrow> cell" where
  "lookup cols row label = (case map_of (zip cols row) label of Some c \<Rightarrow> c | None \<Rightarrow> NaN)"

text \<open>
  The Cleaner hands over a table whose \<^verbatim>\<open>Articulo\<close> and \<^verbatim>\<open>Sucursal\<close> cells are
  strings and whose \<^verbatim>\<open>Venta_Neta\<close> and \<^verbatim>\<open>Cantidad\<close> cells are numbers. The engine
  is never called on another table; the model answers \<open>NotModelled\<close> for one.
\<close>

definition sale_of_row :: "string list \<Rightarrow> cell list \<Rightarrow> sale option" where
  "sale_of_row cols row =
     (case (lookup cols row ''Articulo'', lookup cols row ''Sucursal'',
            lookup cols row ''Venta_Neta'',
            if ''Cantidad'' \<in> set cols then lookup cols row ''Cantidad'' else Num 0) of
        (Str a, Str s, Num v, Num q) \<Rightarrow>
          Some \<lparr> Articulo = a, Sucursal = s, Venta_Neta = v, Cantidad = q,
                 Descripcion = lookup cols row ''Descripcion'' \<rparr>
      | _ \<Rightarrow> None)"

definition sales_of :: "frame \<Rightarrow> sale list option" where
  "sales_of df =
     (if \<forall>row \<in> set (rows df). sale_of_row (columns df) row \<noteq> None
      then Some (map (\<lambda>row. the (sale_of_row (columns df) row)) (rows df))
      else None)"

text \<open>\<^verbatim>\<open>calculate_pareto\<close> (lines 371-581), with the check of lines 401-403 first.\<close>

definition calculate_pareto :: "frame \<Rightarrow> error + (fact_row list \<times> dim_row list)" where
  "calculate_pareto df =
     (if \<exists>col \<in> set [''Articulo'', ''Venta_Neta'', ''Sucursal'']. col \<notin> set (columns df)
      then Inl KeyError
      else (case sales_of df of
              None \<Rightarrow> Inl NotModelled
            | Some sales \<Rightarrow>
                pareto_of_sales (''Cantidad'' \<in> set (columns df))
                  (''Descripcion'' \<in> set (columns df)) sales))"

section \<open>The Cleaner\<close>

text \<open>
  Column operations of pandas work cell by cell. \<open>assign label f df\<close> is
  \<^verbatim>\<open>df[label] = ...\<close> where the new cell of a row is \<open>f row\<close>: an existing column
  is overwritten, a new one is appended. \<open>select_rows\<close> is \<^verbatim>\<open>df[mask]\<close>.
  pandas raises on reading a label that two columns carry; the theorems about the
  Cleaner are stated for tables with pairwise distinct labels.
\<close>

definition put :: "string list \<Rightarrow> string \<Rightarrow> cell \<Rightarrow> cell list \<Rightarrow> cell list" where
  "put cols label v row = map (\<lambda>(c, x). if c = label then v else x) (zip cols row)"

definition assign :: "string \<Rightarrow> (cell list \<Rightarrow> cell) \<Rightarrow> frame \<Rightarrow> frame" where
  "assign label f df =
     (if label \<in> set (columns df)
      then df\<lparr>rows := map (\<lambda>row. put (columns df) label (f row) row) (rows df)\<rparr>
      else \<lparr>columns = columns df @ [label], rows = map (\<lambda>row. row @ [f row]) (rows df)\<rparr>)"

definition select_rows :: "(cell list \<Rightarrow> bool) \<Rightarrow> frame \<Rightarrow> frame" where
  "select_rows keep df = df\<lparr>rows := filter keep (rows df)\<rparr>"

text \<open>
  \<^verbatim>\<open>pd.to_numeric(_, errors='coerce').fillna(0)\<close> and
  \<^verbatim>\<open>astype(str).str.strip().str.upper()\<close> on one cell.
\<close>

definition to_numeric_fillna0 :: "runtime \<Rightarrow> cell \<Rightarrow> cell" where
  "to_numeric_fillna0 E c =
     (case c of
        Num x \<Rightarrow> Num x
      | NaN \<Rightarrow> Num 0
      | Str s \<Rightarrow> (case parse_number E s of Some x \<Rightarrow> Num x | None \<Rightarrow> Num 0))"

definition astype_str :: "runtime \<Rightarrow> cell \<Rightarrow> string" where
  "astype_str E c = (case c of Str s \<Rightarrow> s | Num x \<Rightarrow> number_str E x | NaN \<Rightarrow> ''nan'')"

definition strip_upper :: "runtime \<Rightarrow> cell \<Rightarrow> cell" where
  "strip_upper E c = Str (str_upper E (str_strip E (astype_str E c)))"

text \<open>
  \<^verbatim>\<open>Series.str.contains(patron, case=False, na=False)\<close> on one cell. The patterns
  have no regular-expression operator, so the search is for the pattern as a substring,
  letters compared without regard to case.
\<close>

definition str_contains :: "runtime \<Rightarrow> string \<Rightarrow> cell \<Rightarrow> bool" where
  "str_contains E patron c =
     (case c of Str s \<Rightarrow> sublist (str_lower E patron) (str_lower E s) | _ \<Rightarrow> False)"

definition posibles_totales :: "string list" where
  "posibles_totales =
     [''Total_precio'', ''Total precio'', ''Precio total'', ''Total_venta'', ''Total'', ''Importe'']"

definition patrones_totales :: "string list" where
  "patrones_totales = [''TOTAL'', ''GRAND TOTAL'', ''SUBTOTAL'', ''GRAN TOTAL'', ''TOTAL GENERAL'']"

text \<open>Lines 286-303: where \<^verbatim>\<open>Venta_Neta\<close> is read from.\<close>

definition total_column :: "runtime \<Rightarrow> string list \<Rightarrow> string option" where
  "total_column E cols =
     (case find (\<lambda>c. c \<in> set cols) posibles_totales of
        Some c \<Rightarrow> Some c
      | None \<Rightarrow> find (\<lambda>c. sublist ''total'' (str_lower E c)) cols)"

definition mask_valido :: "string list \<Rightarrow> cell list \<Rightarrow> bool" where
  "mask_valido cols row =
     (lookup cols row ''Articulo'' \<noteq> Str [] \<and> lookup cols row ''Articulo'' \<noteq> Str ''NAN'' \<and>
      lookup cols row ''Articulo'' \<noteq> Str ''NONE'')"

definition mask_no_total :: "runtime \<Rightarrow> string list \<Rightarrow> cell list \<Rightarrow> bool" where
  "mask_no_total E cols row =
     ((''Articulo'' \<in> set cols \<longrightarrow>
         (\<forall>patron \<in> set patrones_totales. \<not> str_contains E patron (lookup cols row ''Articulo''))) \<and>
      (''Descripcion'' \<in> set cols \<longrightarrow>
         (\<forall>patron \<in> set patrones_totales. \<not> str_contains E patron (lookup cols row ''Descripcion''))))"

text \<open>\<^verbatim>\<open>clean_data\<close> (lines 274-364), statement by statement.\<close>

definition clean_data :: "runtime \<Rightarrow> frame \<Rightarrow> frame" where
  "clean_data E df0 =
     (let df1 = (case total_column E (columns df0) of
                   Some c \<Rightarrow>
                     assign ''Venta_Neta''
                       (\<lambda>row. to_numeric_fillna0 E (lookup (columns df0) row c)) df0
                 | None \<Rightarrow> assign ''Venta_Neta'' (\<lambda>row. Num 0) df0);
          df2 = (if ''Cantidad'' \<in> set (columns df1)
                 then assign ''Cantidad''
                        (\<lambda>row. to_numeric_fillna0 E (lookup (columns df1) row ''Cantidad'')) df1
                 else assign ''Cantidad'' (\<lambda>row. Num 0) df1);
          df3 = (if ''Precio'' \<in> set (columns df2)
                 then assign ''Precio''
                        (\<lambda>row. to_numeric_fillna0 E (lookup (columns df2) row ''Precio'')) df2
                 else df2);
          df4 = (if ''Articulo'' \<in> set (columns df3)
                 then select_rows (mask_valido (columns df3))
                        (assign ''Articulo''
                           (\<lambda>row. strip_upper E (lookup (columns df3) row ''Articulo'')) df3)
                 else df3);
          df5 = (if ''Descripcion'' \<in> set (columns df4)
                 then assign ''Descripcion''
                        (\<lambda>row. strip_upper E (lookup (columns df4) row ''Descripcion'')) df4
                 else df4);
          df6 = select_rows (mask_no_total E (columns df5)) df5;
          df7 = (if ''Descripcion'' \<notin> set (columns df6)
                 then assign ''Descripcion'' (\<lambda>row. Str ''SIN DESCRIPCION'') df6
                 else df6)
      in df7)"

section \<open>Extraction and the pipeline\<close>

text \<open>
  Reading is input/output: a file is given by what \<^verbatim>\<open>pd.read_csv\<close> answers for
  each encoding and header offset, a table or an exception. \<^verbatim>\<open>smart_read_csv\<close>
  (lines 179-205) returns the first parse that \<open>has_valid_columns\<close> accepts; an attempt
  that raises is passed over; when none is accepted the file is read with header 2 and
  UTF-8, and an exception of that last read leaves the function.
\<close>

type_synonym reader = "string \<Rightarrow> nat option \<Rightarrow> error + frame"

definition encodings :: "string list" where
  "encodings = [''utf-8'', ''latin-1'', ''cp1252'']"

definition headers_to_try :: "nat option list" where
  "headers_to_try = [Some 0, Some 1, Some 2, Some 3, None]"

fun first_valid :: "runtime \<Rightarrow> reader \<Rightarrow> (string \<times> nat option) list \<Rightarrow> frame option" where
  "first_valid E read_csv [] = None"
| "first_valid E read_csv ((encoding, header) # rest) =
     (case read_csv encoding header of
        Inr df \<Rightarrow> if has_valid_columns E df then Some df else first_valid E read_csv rest
      | Inl e \<Rightarrow> first_valid E read_csv rest)"

definition smart_read_csv :: "runtime \<Rightarrow> reader \<Rightarrow> error + frame" where
  "smart_read_csv E read_csv =
     (case first_valid E read_csv
             [(encoding, header). encoding \<leftarrow> encodings, header \<leftarrow> headers_to_try] of
        Some df \<Rightarrow> Inr df
      | None \<Rightarrow> read_csv ''utf-8'' (Some 2))"

text \<open>
  \<^verbatim>\<open>pd.concat(dataframes, ignore_index=True)\<close>: the columns are the labels of all
  tables in order of first appearance; a row keeps its cells and gets \<^verbatim>\<open>NaN\<close> under
  the labels its table did not have.
\<close>

definition pd_concat :: "frame list \<Rightarrow> frame" where
  "pd_concat dataframes =
     (let cols = rev (remdups (rev (concat (map columns dataframes))))
      in \<lparr> columns = cols,
           rows = concat (map (\<lambda>df. map (\<lambda>row. map (lookup (columns df) row) cols) (rows df))
                            dataframes) \<rparr>)"

text \<open>
  The loop of \<^verbatim>\<open>extract_all_files\<close> (lines 232-254) over the sorted files, each
  given by its stem and its reader. It returns the tables read, tagged with the branch,
  and the names of the files for which the \<^verbatim>\<open>except\<close> branch logged an error.
\<close>

fun load_files :: "runtime \<Rightarrow> (string \<times> reader) list \<Rightarrow> frame list \<times> string list" where
  "load_files E [] = ([], [])"
| "load_files E ((stem, read_csv) # files) =
     (let (dataframes, logged) = load_files E files
      in case smart_read_csv E read_csv of
           Inr df \<Rightarrow> (assign ''Sucursal'' (\<lambda>row. Str (str_upper E stem)) df # dataframes, logged)
         | Inl e \<Rightarrow> (dataframes, stem # logged))"

definition extract_all_files :: "runtime \<Rightarrow> (string \<times> reader) list \<Rightarrow> error + frame" where
  "extract_all_files E files =
     (if files = [] then Inl FileNotFoundError
      else let dataframes = fst (load_files E files)
           in if dataframes = [] then Inl ValueError else Inr (pd_concat dataframes))"

text \<open>
  \<^verbatim>\<open>run_pipeline\<close> (lines 674-708) up to the tables it hands to the exporter. An
  exception of a stage ends the run.
\<close>

definition run_pipeline ::
  "runtime \<Rightarrow> (string \<times> reader) list \<Rightarrow> error + (fact_row list \<times> dim_row list)" where
  "run_pipeline E files =
     (case extract_all_files E files of
        Inl e \<Rightarrow> Inl e
      | Inr raw_df \<Rightarrow>
          (case super_normalize_columns E raw_df of
             Inl e \<Rightarrow> Inl e
           | Inr normal_df \<Rightarrow> calculate_pareto (clean_data E normal_df)))"

text \<open>The rounded share of one item, \<^verbatim>\<open>Porcentaje_Articulo_Global\<close>, as \<open>pareto_rows\<close> computes it.\<close>

definition share :: "rat \<Rightarrow> dim_cand \<Rightarrow> rat" where
  "share tp c = round_dec 4 (cand_Venta_Neta_Total c / tp)"

text \<open>
  What one pass of the loop of lines 107-134 writes into \<^verbatim>\<open>col_mapping\<close> for the
  label \<open>col\<close>, given the flag.
\<close>

definition decide :: "runtime \<Rightarrow> bool \<Rightarrow> string \<Rightarrow> string option" where
  "decide E found col =
     (if \<not> found \<and> articulo_match (col_clean_of E col) then Some ''Articulo''
      else other_target (col_clean_of E col))"

text \<open>
  The canonical labels, and what it means that the runtime reads a label as plain ASCII
  text with nothing to trim: cleaning leaves it alone and lowercasing is that of ASCII.
\<close>

definition canonical_labels :: "string list" where
  "canonical_labels =
     [''Articulo'', ''Descripcion'', ''Cantidad'', ''Precio'', ''Total_precio'', ''Sucursal'']"

definition reads_ascii :: "runtime \<Rightarrow> string \<Rightarrow> bool" where
  "reads_ascii E s =
     (remove_accents E (str_strip E s) = s \<and> col_clean_of E s = ascii_lower s)"

section \<open>Reading the Cleaner row by row\<close>

text \<open>
  Notions used to state and prove what the Cleaner does to a row. A table is well formed
  when every row has one cell per column. \<open>item_view\<close> is the pair of columns
  \<^verbatim>\<open>Articulo\<close> and \<^verbatim>\<open>Descripcion\<close> of a table, row by row.
\<close>

definition well_formed :: "frame \<Rightarrow> bool" where
  "well_formed df = list_all (\<lambda>row. length row = length (columns df)) (rows df)"

definition item_view :: "frame \<Rightarrow> (cell \<times> cell) list" where
  "item_view df =
     map (\<lambda>row. (lookup (columns df) row ''Articulo'', lookup (columns df) row ''Descripcion''))
       (rows df)"

text \<open>
  The rows the claim speaks of: \<open>contains_total E s\<close> says that the text \<open>s\<close> contains
  one of the five patterns, letters compared without regard to case, and
  \<open>is_total_row\<close> that the text of the \<^verbatim>\<open>Articulo\<close> cell or of the
  \<^verbatim>\<open>Descripcion\<close> cell of a row does, as the table has it before it is cleaned.
\<close>

definition contains_total :: "runtime \<Rightarrow> string \<Rightarrow> bool" where
  "contains_total E s =
     list_ex (\<lambda>patron. sublist (str_lower E patron) (str_lower E s)) patrones_totales"

definition is_total_row :: "runtime \<Rightarrow> string list \<Rightarrow> cell list \<Rightarrow> bool" where
  "is_total_row E cols row =
     ((''Articulo'' \<in> set cols \<and>
         contains_total E (astype_str E (lookup cols row ''Articulo''))) \<or>
      (''Descripcion'' \<in> set cols \<and>
         contains_total E (astype_str E (lookup cols row ''Descripcion''))))"

text \<open>The two masks of the Cleaner as tests of one cell.\<close>

definition valid_item :: "cell \<Rightarrow> bool" where
  "valid_item a = (a \<noteq> Str [] \<and> a \<noteq> Str ''NAN'' \<and> a \<noteq> Str ''NONE'')"

definition no_total :: "runtime \<Rightarrow> cell \<Rightarrow> bool" where
  "no_total E c = (\<forall>patron \<in> set patrones_totales. \<not> str_contains E patron c)"

text \<open>
  A table operation works row by row when the labels of its result depend on the labels
  of its argument only, and its rows are made of each row of the argument on its own.
\<close>

definition rowwise :: "(frame \<Rightarrow> frame) \<Rightarrow> bool" where
  "rowwise F = (\<exists>C G. \<forall>df. F df = \<lparr> columns = C (columns df),
                                       rows = concat (map (G (columns df)) (rows df)) \<rparr>)"

section \<open>Example tables\<close>

text \<open>
  A normalized, consolidated table of two branches: item \<open>X1\<close> sells in both, \<open>Y2\<close> has
  only a return, \<open>Z3\<close> a sale and a return, and the last row is a summary line of the
  spreadsheet.
\<close>

definition example_table :: frame where
  "example_table =
     \<lparr> columns = [''Articulo'', ''Descripcion'', ''Total_precio'', ''Sucursal''],
       rows = [[Str ''x1'', Str ''Camisa'', Num 800, Str ''NORTE''],
               [Str ''x1'', Str ''Camisa'', Num 200, Str ''SUR''],
               [Str ''y2'', Str ''Pantalon'', Num (- 150), Str ''SUR''],
               [Str ''z3'', Str ''Medias'', Num 250, Str ''SUR''],
               [Str ''z3'', Str ''Medias'', Num (- 50), Str ''SUR''],
               [Str ''TOTAL GENERAL'', NaN, Num 50000, Str ''SUR'']] \<rparr>"

text \<open>The table the Cleaner makes of it, and the two tables the engine makes of that.\<close>

definition example_clean :: frame where
  "example_clean =
     \<lparr> columns = [''Articulo'', ''Descripcion'', ''Total_precio'', ''Sucursal'',
                  ''Venta_Neta'', ''Cantidad''],
       rows = [[Str ''X1'', Str ''CAMISA'', Num 800, Str ''NORTE'', Num 800, Num 0],
               [Str ''X1'', Str ''CAMISA'', Num 200, Str ''SUR'', Num 200, Num 0],
               [Str ''Y2'', Str ''PANTALON'', Num (- 150), Str ''SUR'', Num (- 150), Num 0],
               [Str ''Z3'', Str ''MEDIAS'', Num 250, Str ''SUR'', Num 250, Num 0],
               [Str ''Z3'', Str ''MEDIAS'', Num (- 50), Str ''SUR'', Num (- 50), Num 0]] \<rparr>"

definition example_facts :: "fact_row list" where
  "example_facts =
     [\<lparr> fact_Articulo = ''X1'', fact_Sucursal = ''NORTE'', fact_Venta_Neta = 800,
         fact_Venta_Bruta = 800, fact_Venta_Devolucion = 0, fact_Cantidad = Some 0 \<rparr>,
      \<lparr> fact_Articulo = ''X1'', fact_Sucursal = ''SUR'', fact_Venta_Neta = 200,
         fact_Venta_Bruta = 200, fact_Venta_Devolucion = 0, fact_Cantidad = Some 0 \<rparr>,
      \<lparr> fact_Articulo = ''Z3'', fact_Sucursal = ''SUR'', fact_Venta_Neta = 200,
         fact_Venta_Bruta = 250, fact_Venta_Devolucion = 50, fact_Cantidad = Some 0 \<rparr>]"

definition example_dims :: "dim_row list" where
  "example_dims =
     [\<lparr> dim_Articulo = ''X1'', dim_Descripcion = Some (Str ''CAMISA''), Ranking = 1,
         Clasificacion_ABC = B, Venta_Neta_Total = 1000, Venta_Bruta_Total = 1000,
         Venta_Devolucion_Total = 0, Tasa_Devolucion = Fin 0,
         Porcentaje_Articulo_Global = 8333 / 10000, Porcentaje_Acumulado = 8333 / 10000 \<rparr>,
      \<lparr> dim_Articulo = ''Z3'', dim_Descripcion = Some (Str ''MEDIAS''), Ranking = 2,
         Clasificacion_ABC = C, Venta_Neta_Total = 200, Venta_Bruta_Total = 250,
         Venta_Devolucion_Total = 50, Tasa_Devolucion = Fin (1 / 5),
         Porcentaje_Articulo_Global = 1667 / 10000, Porcentaje_Acumulado = 1 \<rparr>]"

text \<open>The rows of \<open>example_clean\<close> as the engine reads them.\<close>

definition example_sales :: "sale list" where
  "example_sales =
     [\<lparr> Articulo = ''X1'', Sucursal = ''NORTE'', Venta_Neta = 800, Cantidad = 0,
         Descripcion = Str ''CAMISA'' \<rparr>,
      \<lparr> Articulo = ''X1'', Sucursal = ''SUR'', Venta_Neta = 200, Cantidad = 0,
         Descripcion = Str ''CAMISA'' \<rparr>,
      \<lparr> Articulo = ''Y2'', Sucursal = ''SUR'', Venta_Neta = - 150, Cantidad = 0,
         Descripcion = Str ''PANTALON'' \<rparr>,
      \<lparr> Articulo = ''Z3'', Sucursal = ''SUR'', Venta_Neta = 250, Cantidad = 0,
         Descripcion = Str ''MEDIAS'' \<rparr>,
      \<lparr> Articulo = ''Z3'', Sucursal = ''SUR'', Venta_Neta = - 50, Cantidad = 0,
         Descripcion = Str ''MEDIAS'' \<rparr>]"

text \<open>
  A file whose first line is the title of the report, read with header offset 0: the
  title is the label of the first column and pandas names the other columns itself.
\<close>

definition title_parse :: frame where
  "title_parse =
     \<lparr> columns = [''Ventas por articulo - total'', ''Unnamed: 1'', ''Unnamed: 2''],
       rows = [[Str ''Codigo'', Str ''Cantidad'', Str ''Importe''],
               [Str ''X1'', Num 2, Num 800]] \<rparr>"

text \<open>
  Tables for the normalizer: one with a product column before a column already labelled
  \<^verbatim>\<open>Articulo\<close>, the header of scenario 1 without its accents, and one with no item
  column.
\<close>

definition two_articulo_table :: frame where
  "two_articulo_table =
     \<lparr> columns = [''Producto'', ''Articulo''],
       rows = [[Str ''Camisa'', Str ''X1'']] \<rparr>"

definition scenario_table :: frame where
  "scenario_table =
     \<lparr> columns = [''Codigo'', ''Descripcion'', ''Cant'', ''Precio'', ''Total''],
       rows = [[Str ''X1'', Str ''Camisa'', Num 2, Num 400, Num 800]] \<rparr>"

definition no_item_table :: frame where
  "no_item_table =
     \<lparr> columns = [''Fecha'', ''Descripcion'', ''Total''],
       rows = [[Str ''2026-01-05'', Str ''Resumen'', Num 10]] \<rparr>"

text \<open>
  A table in which two labels differ by a trailing blank only, and the table that
  normalization makes of \<open>scenario_table\<close>.
\<close>

definition repeated_label_table :: frame where
  "repeated_label_table =
     \<lparr> columns = [''Nombre producto'', ''Nombre producto '', ''Partida'', ''Articulo''],
       rows = [[Str ''Camisa'', Str ''Camisa azul'', Str ''P7'', Str ''X1'']] \<rparr>"

definition scenario_normal :: frame where
  "scenario_normal =
     \<lparr> columns = [''Articulo'', ''Descripcion'', ''Cantidad'', ''Precio'', ''Total_precio''],
       rows = [[Str ''X1'', Str ''Camisa'', Num 2, Num 400, Num 800]] \<rparr>"

text \<open>
  Files for the extraction: a reader that answers the same table for every encoding and
  header offset, and one that raises at every attempt; a summary sheet with no item
  column, a sales sheet, and the two tables the pipeline makes of the sales sheet read
  from a file named \<^verbatim>\<open>b\<close>.
\<close>

definition reads_as :: "frame \<Rightarrow> reader" where
  "reads_as df = (\<lambda>encoding header. Inr df)"

definition unreadable :: reader where
  "unreadable = (\<lambda>encoding header. Inl ParseError)"

definition summary_file :: frame where
  "summary_file =
     \<lparr> columns = [''Fecha total'', ''Descripcion'', ''Total''],
       rows = [[Str ''2026-01-05'', Str ''Resumen'', Num 10]] \<rparr>"

definition sales_file :: frame where
  "sales_file =
     \<lparr> columns = [''Articulo'', ''Descripcion'', ''Total_venta''],
       rows = [[Str ''X1'', Str ''Camisa'', Num 100]] \<rparr>"

definition sales_run :: "fact_row list \<times> dim_row list" where
  "sales_run =
     ([\<lparr> fact_Articulo = ''X1'', fact_Sucursal = ''B'', fact_Venta_Neta = 100,
          fact_Venta_Bruta = 100, fact_Venta_Devolucion = 0, fact_Cantidad = Some 0 \<rparr>],
      [\<lparr> dim_Articulo = ''X1'', dim_Descripcion = Some (Str ''CAMISA''), Ranking = 1,
          Clasificacion_ABC = C, Venta_Neta_Total = 100, Venta_Bruta_Total = 100,
          Venta_Devolucion_Total = 0, Tasa_Devolucion = Fin 0,
          Porcentaje_Articulo_Global = 1, Porcentaje_Acumulado = 1 \<rparr>])"

section \<open>Properties of the rounding\<close>

text \<open>
  Rounding moves a number by at most half a unit of the last place kept, keeps the order
  and the sign, and leaves alone a number that already has that many places.
\<close>

lemma rint_error: "\<bar>of_int (rint x) - x\<bar> \<le> 1 / 2"
proof -
  have "of_int \<lfloor>x\<rfloor> \<le> x" "x < of_int \<lfloor>x\<rfloor> + 1" by linarith+
  then show ?thesis unfolding rint_def Let_def
    by (cases "x - of_int \<lfloor>x\<rfloor> < 1 / 2"; cases "x - of_int \<lfloor>x\<rfloor> > 1 / 2"; cases "even \<lfloor>x\<rfloor>";
        simp; linarith)
qed

lemma rint_of_int: "rint (of_int k) = k"
  by (simp add: rint_def)

lemma rint_mono: assumes "x \<le> y" shows "rint x \<le> rint y"
proof -
  have fl: "\<lfloor>x\<rfloor> \<le> \<lfloor>y\<rfloor>" using assms by (rule floor_mono)
  have lo: "\<lfloor>y\<rfloor> \<le> rint y" by (simp add: rint_def Let_def)
  have hi: "rint x \<le> \<lfloor>x\<rfloor> + 1" by (simp add: rint_def Let_def)
  show ?thesis
  proof (cases "\<lfloor>x\<rfloor> = \<lfloor>y\<rfloor>")
    case True
    then have "x - of_int \<lfloor>x\<rfloor> \<le> y - of_int \<lfloor>y\<rfloor>" using assms by simp
    then show ?thesis using True unfolding rint_def Let_def by auto
  next
    case False
    then have "\<lfloor>x\<rfloor> + 1 \<le> \<lfloor>y\<rfloor>" using fl by linarith
    then show ?thesis using lo hi by linarith
  qed
qed

lemma rint_nonneg: "0 \<le> x \<Longrightarrow> 0 \<le> rint x"
  using rint_mono [of 0 x] rint_of_int [of 0] by simp

lemma round_dec_error: "\<bar>round_dec n x - x\<bar> \<le> 1 / (2 * 10 ^ n)"
proof -
  have p: "(0::rat) < 10 ^ n" by simp
  define e where "e = of_int (rint (x * 10 ^ n)) - x * 10 ^ n"
  have "\<bar>e\<bar> \<le> 1 / 2" unfolding e_def by (rule rint_error)
  then have "\<bar>e\<bar> / 10 ^ n \<le> (1 / 2) / 10 ^ n"
    using p by (rule_tac divide_right_mono) auto
  moreover have "round_dec n x - x = e / 10 ^ n"
    using p by (simp add: round_dec_def e_def diff_divide_distrib)
  moreover have "\<bar>e / 10 ^ n\<bar> = \<bar>e\<bar> / 10 ^ n"
    using p by simp
  ultimately show ?thesis by simp
qed

lemma round_dec_mono: "x \<le> y \<Longrightarrow> round_dec n x \<le> round_dec n y"
  unfolding round_dec_def
  by (intro divide_right_mono) (auto intro!: rint_mono mult_right_mono)

lemma round_dec_nonneg: "0 \<le> x \<Longrightarrow> 0 \<le> round_dec n x"
  unfolding round_dec_def by (auto intro!: divide_nonneg_nonneg rint_nonneg)

lemma round_dec_of_int: "round_dec n (of_int k / 10 ^ n) = of_int k / 10 ^ n"
  by (simp add: round_dec_def rint_of_int)

section \<open>Properties of the engine\<close>

text \<open>
  Sums do not depend on the order of the rows, and summing group totals over distinct
  keys is summing the rows that carry one of the keys.
\<close>

lemma sum_list_insort_key: "sum_list (map g (insort_key f x xs)) = g x + sum_list (map g xs)"
  for g :: "'a \<Rightarrow> rat"
  by (induction xs) auto

lemma sum_list_sort_key: "sum_list (map g (sort_key f xs)) = sum_list (map g xs)"
  for g :: "'a \<Rightarrow> rat"
  by (induction xs) (auto simp: sum_list_insort_key)

lemma sum_list_filter_disj:
  "(\<And>x. x \<in> set xs \<Longrightarrow> \<not> (P x \<and> Q x)) \<Longrightarrow>
   sum_list (map g (filter (\<lambda>x. P x \<or> Q x) xs)) =
   sum_list (map g (filter P xs)) + sum_list (map g (filter Q xs))"
  for g :: "'a \<Rightarrow> rat"
  by (induction xs) auto

lemma regroup:
  assumes "distinct (map key cs)"
    and "\<And>c. c \<in> set cs \<Longrightarrow> tot c = sum_list (map g (filter (\<lambda>f. fkey f = key c) fs))"
  shows "sum_list (map tot cs) =
         (sum_list (map g (filter (\<lambda>f. fkey f \<in> key ` set cs) fs)) :: rat)"
  using assms
proof (induction cs)
  case Nil
  then show ?case by simp
next
  case (Cons c cs)
  have disj: "\<And>f. f \<in> set fs \<Longrightarrow> \<not> (fkey f = key c \<and> fkey f \<in> key ` set cs)"
    using Cons.prems(1) by auto
  have "sum_list (map g (filter (\<lambda>f. fkey f \<in> key ` set (c # cs)) fs)) =
        sum_list (map g (filter (\<lambda>f. fkey f = key c \<or> fkey f \<in> key ` set cs) fs))"
    by (simp add: insert_iff)
  also have "\<dots> = sum_list (map g (filter (\<lambda>f. fkey f = key c) fs)) +
                  sum_list (map g (filter (\<lambda>f. fkey f \<in> key ` set cs) fs))"
    using disj by (rule sum_list_filter_disj)
  also have "\<dots> = tot c + sum_list (map tot cs)"
    using Cons by simp
  finally show ?case by simp
qed

lemma pareto_rows_length: "length (pareto_rows tp acc k cs) = length cs"
  by (induction cs arbitrary: acc k) (auto simp: Let_def)

lemma pareto_rows_neta:
  "map Venta_Neta_Total (pareto_rows tp acc k cs) = map cand_Venta_Neta_Total cs"
  by (induction cs arbitrary: acc k) (auto simp: Let_def)

lemma pareto_rows_articulo:
  "map dim_Articulo (pareto_rows tp acc k cs) = map cand_Articulo cs"
  by (induction cs arbitrary: acc k) (auto simp: Let_def)

lemma pareto_rows_class:
  "r \<in> set (pareto_rows tp acc k cs) \<Longrightarrow> Clasificacion_ABC r = classify (Porcentaje_Acumulado r)"
  by (induction cs arbitrary: acc k) (auto simp: Let_def)

lemma dim_articulos_keys:
  "map cand_Articulo (dim_articulos facts descs) = sort (remdups (map fact_Articulo facts))"
  by (simp add: dim_articulos_def Let_def comp_def)

lemma dim_articulos_neta:
  "c \<in> set (dim_articulos facts descs) \<Longrightarrow>
   cand_Venta_Neta_Total c =
     sum_list (map fact_Venta_Neta (filter (\<lambda>f. fact_Articulo f = cand_Articulo c) facts))"
  by (auto simp: dim_articulos_def Let_def)

lemma dim_articulos_distinct: "distinct (map cand_Articulo (dim_articulos facts descs))"
  by (simp add: dim_articulos_keys)

lemma pareto_of_sales_sums:
  assumes "pareto_of_sales hc hdesc df = Inr (facts, dims)"
  shows "sum_list (map fact_Venta_Neta facts) = sum_list (map Venta_Neta_Total dims)"
proof -
  define all_facts where "all_facts = fact_ventas hc df"
  define cs where "cs = filter (\<lambda>c. cand_Venta_Neta_Total c > 0) (candidates hc hdesc df)"
  define ranked where "ranked = sort_key (\<lambda>c. - cand_Venta_Neta_Total c) cs"
  define tp where "tp = sum_list (map cand_Venta_Neta_Total ranked)"
  from assms have ne: "cs \<noteq> []"
    by (auto simp: pareto_of_sales_def Let_def cs_def split: if_splits)
  from assms ne have dims: "dims = pareto_rows tp 0 1 ranked"
    and facts: "facts = filter (\<lambda>f. fact_Articulo f \<in> set (map dim_Articulo dims)) all_facts"
    by (auto simp: pareto_of_sales_def Let_def cs_def ranked_def tp_def all_facts_def
        split: if_splits)
  have keys: "set (map dim_Articulo dims) = cand_Articulo ` set cs"
    by (simp add: dims pareto_rows_articulo ranked_def)
  have dist: "distinct (map cand_Articulo cs)"
    unfolding cs_def candidates_def by (intro distinct_map_filter dim_articulos_distinct)
  have tot: "\<And>c. c \<in> set cs \<Longrightarrow> cand_Venta_Neta_Total c =
      sum_list (map fact_Venta_Neta (filter (\<lambda>f. fact_Articulo f = cand_Articulo c) all_facts))"
    unfolding cs_def candidates_def all_facts_def by (auto intro: dim_articulos_neta)
  have "sum_list (map Venta_Neta_Total dims) = sum_list (map cand_Venta_Neta_Total cs)"
    by (simp add: dims pareto_rows_neta ranked_def sum_list_sort_key)
  also have "\<dots> = sum_list (map fact_Venta_Neta
                      (filter (\<lambda>f. fact_Articulo f \<in> cand_Articulo ` set cs) all_facts))"
    using dist tot by (rule regroup)
  also have "\<dots> = sum_list (map fact_Venta_Neta facts)"
    unfolding facts keys ..
  finally show ?thesis by simp
qed

lemma calculate_pareto_Inr:
  "calculate_pareto df = Inr r \<Longrightarrow>
   \<exists>sales. sales_of df = Some sales \<and>
     pareto_of_sales (''Cantidad'' \<in> set (columns df)) (''Descripcion'' \<in> set (columns df)) sales
       = Inr r"
  by (auto simp: calculate_pareto_def split: if_splits option.splits)

subsection \<open>Ranking, cumulative share and class\<close>

lemma pareto_of_sales_dims:
  assumes "pareto_of_sales hc hdesc df = Inr (facts, dims)"
  shows "\<exists>ranked. ranked \<noteq> [] \<and> (\<forall>c \<in> set ranked. 0 < cand_Venta_Neta_Total c) \<and>
           dims = pareto_rows (sum_list (map cand_Venta_Neta_Total ranked)) 0 1 ranked"
proof -
  define cs where "cs = filter (\<lambda>c. cand_Venta_Neta_Total c > 0) (candidates hc hdesc df)"
  define ranked where "ranked = sort_key (\<lambda>c. - cand_Venta_Neta_Total c) cs"
  from assms have ne: "cs \<noteq> []"
    by (auto simp: pareto_of_sales_def Let_def cs_def split: if_splits)
  from assms ne have "dims = pareto_rows (sum_list (map cand_Venta_Neta_Total ranked)) 0 1 ranked"
    by (auto simp: pareto_of_sales_def Let_def cs_def ranked_def split: if_splits)
  moreover have "set ranked = set cs" by (simp add: ranked_def)
  then have "ranked \<noteq> []" "\<forall>c \<in> set ranked. 0 < cand_Venta_Neta_Total c"
    using ne by (auto simp: cs_def)
  ultimately show ?thesis by blast
qed


lemma pareto_rows_nth:
  "i < length cs \<Longrightarrow>
   Ranking (pareto_rows tp acc k cs ! i) = k + i \<and>
   Porcentaje_Acumulado (pareto_rows tp acc k cs ! i) =
     round_dec 4 (acc + sum_list (map (share tp) (take (Suc i) cs)))"
proof (induction cs arbitrary: acc k i)
  case Nil
  then show ?case by simp
next
  case (Cons c cs)
  show ?case
  proof (cases i)
    case 0
    then show ?thesis by (simp add: Let_def share_def)
  next
    case (Suc j)
    with Cons.prems have "j < length cs" by simp
    from Cons.IH [OF this, of "acc + share tp c" "Suc k"] Suc
    show ?thesis by (simp add: Let_def share_def add.assoc)
  qed
qed

lemma sum_list_take_mono:
  "(\<And>x. x \<in> set xs \<Longrightarrow> (0::rat) \<le> f x) \<Longrightarrow> i \<le> j \<Longrightarrow>
   sum_list (map f (take i xs)) \<le> sum_list (map f (take j xs))"
proof (induction xs arbitrary: i j)
  case Nil
  then show ?case by simp
next
  case (Cons x xs)
  show ?case
  proof (cases i)
    case 0
    have "0 \<le> sum_list (map f (take j (x # xs)))"
      by (rule sum_list_nonneg) (auto dest!: in_set_takeD intro: Cons.prems(1))
    with 0 show ?thesis by simp
  next
    case (Suc i')
    with Cons.prems(2) obtain j' where j: "j = Suc j'" "i' \<le> j'" by (cases j) auto
    have "sum_list (map f (take i' xs)) \<le> sum_list (map f (take j' xs))"
      by (rule Cons.IH) (use Cons.prems(1) j in auto)
    with Suc j show ?thesis by simp
  qed
qed

lemma sum_round_error:
  "\<bar>sum_list (map (\<lambda>x. round_dec 4 (f x)) xs) - sum_list (map f xs)\<bar>
     \<le> of_nat (length xs) * (5 / 100000)"
proof (induction xs)
  case Nil
  then show ?case by simp
next
  case (Cons x xs)
  define a where "a = round_dec 4 (f x) - f x"
  define b where "b = sum_list (map (\<lambda>x. round_dec 4 (f x)) xs) - sum_list (map f xs)"
  have "\<bar>a\<bar> \<le> 1 / (2 * 10 ^ 4)" unfolding a_def by (rule round_dec_error)
  then have a: "\<bar>a\<bar> \<le> 5 / 100000" by simp
  have b: "\<bar>b\<bar> \<le> of_nat (length xs) * (5 / 100000)" unfolding b_def by (rule Cons.IH)
  have "sum_list (map (\<lambda>x. round_dec 4 (f x)) (x # xs)) - sum_list (map f (x # xs)) = a + b"
    by (simp add: a_def b_def)
  moreover have "\<bar>a + b\<bar> \<le> \<bar>a\<bar> + \<bar>b\<bar>" by (rule abs_triangle_ineq)
  moreover have "of_nat (length (x # xs)) * (5 / 100000 :: rat) =
                 5 / 100000 + of_nat (length xs) * (5 / 100000)"
    by (simp add: algebra_simps)
  ultimately show ?case using a b by linarith
qed

lemma sum_round_places:
  "\<exists>k::int. sum_list (map (\<lambda>x. round_dec 4 (f x)) xs) = of_int k / 10 ^ 4"
proof (induction xs)
  case Nil
  show ?case by (rule exI [of _ 0]) simp
next
  case (Cons x xs)
  then obtain k where k: "sum_list (map (\<lambda>x. round_dec 4 (f x)) xs) = of_int k / 10 ^ 4" ..
  have "round_dec 4 (f x) + of_int k / 10 ^ 4 = of_int (rint (f x * 10 ^ 4) + k) / 10 ^ 4"
    by (simp add: round_dec_def add_divide_distrib)
  with k have "sum_list (map (\<lambda>x. round_dec 4 (f x)) (x # xs)) =
      of_int (rint (f x * 10 ^ 4) + k) / 10 ^ 4"
    by simp
  then show ?case by (rule exI)
qed

lemma sum_shares:
  assumes "tp = sum_list (map cand_Venta_Neta_Total cs)" and "tp \<noteq> 0"
  shows "sum_list (map (\<lambda>c. cand_Venta_Neta_Total c / tp) cs) = 1"
proof -
  have "sum_list (map (\<lambda>c. cand_Venta_Neta_Total c / tp) cs) =
        sum_list (map cand_Venta_Neta_Total cs) / tp"
    by (induction cs) (auto simp: add_divide_distrib)
  with assms show ?thesis by simp
qed

lemma pareto_rows_monotone:
  assumes tp: "0 < tp" and pos: "\<forall>c \<in> set cs. 0 \<le> cand_Venta_Neta_Total c"
    and r: "r \<in> set (pareto_rows tp acc k cs)" and s: "s \<in> set (pareto_rows tp acc k cs)"
    and le: "Ranking r \<le> Ranking s"
  shows "Porcentaje_Acumulado r \<le> Porcentaje_Acumulado s"
proof -
  from r obtain i where i: "i < length cs" "r = pareto_rows tp acc k cs ! i"
    by (auto simp: in_set_conv_nth pareto_rows_length)
  from s obtain j where j: "j < length cs" "s = pareto_rows tp acc k cs ! j"
    by (auto simp: in_set_conv_nth pareto_rows_length)
  from le i j have ij: "i \<le> j" by (simp add: pareto_rows_nth)
  have nonneg: "\<And>c. c \<in> set cs \<Longrightarrow> 0 \<le> share tp c"
    unfolding share_def using tp pos by (auto intro!: round_dec_nonneg divide_nonneg_pos)
  have "sum_list (map (share tp) (take (Suc i) cs)) \<le> sum_list (map (share tp) (take (Suc j) cs))"
    using nonneg ij by (intro sum_list_take_mono) auto
  then show ?thesis using i j by (simp add: pareto_rows_nth round_dec_mono)
qed

lemma pareto_rows_last:
  assumes "cs \<noteq> []" and "tp = sum_list (map cand_Venta_Neta_Total cs)" and "tp \<noteq> 0"
  shows "Ranking (last (pareto_rows tp 0 1 cs)) = length cs"
    and "\<bar>Porcentaje_Acumulado (last (pareto_rows tp 0 1 cs)) - 1\<bar>
           \<le> of_nat (length cs) * (5 / 100000)"
proof -
  let ?rows = "pareto_rows tp 0 1 cs"
  have len: "length ?rows = length cs" by (rule pareto_rows_length)
  with assms(1) have ne: "?rows \<noteq> []" by auto
  have pos: "0 < length cs" using assms(1) by simp
  then have i: "length cs - 1 < length cs" by simp
  have last: "last ?rows = ?rows ! (length cs - 1)" using ne len by (simp add: last_conv_nth)
  show "Ranking (last ?rows) = length cs"
    unfolding last using pareto_rows_nth [OF i, of tp 0 1] pos by simp
  obtain k :: int where k: "sum_list (map (share tp) cs) = of_int k / 10 ^ 4"
    using sum_round_places [of "\<lambda>c. cand_Venta_Neta_Total c / tp" cs]
    unfolding share_def by blast
  have "Porcentaje_Acumulado (last ?rows) = round_dec 4 (sum_list (map (share tp) cs))"
    unfolding last using pareto_rows_nth [OF i, of tp 0 1] pos by simp
  also have "\<dots> = sum_list (map (share tp) cs)"
    unfolding k by (rule round_dec_of_int)
  finally have pa: "Porcentaje_Acumulado (last ?rows) = sum_list (map (share tp) cs)" .
  have "\<bar>sum_list (map (share tp) cs) - sum_list (map (\<lambda>c. cand_Venta_Neta_Total c / tp) cs)\<bar>
          \<le> of_nat (length cs) * (5 / 100000)"
    unfolding share_def by (rule sum_round_error)
  then show "\<bar>Porcentaje_Acumulado (last ?rows) - 1\<bar> \<le> of_nat (length cs) * (5 / 100000)"
    unfolding pa sum_shares [OF assms(2,3)] .
qed

lemma classify_cases:
  "(classify p = A \<longrightarrow> p \<le> 80 / 100) \<and>
   (classify p = B \<longrightarrow> 80 / 100 < p \<and> p \<le> 95 / 100) \<and>
   (classify p = C \<longrightarrow> 95 / 100 < p)"
  by (auto simp: classify_def Let_def split: if_splits)

subsection \<open>Rows of the fact table\<close>

lemma pareto_rows_ranking: "map Ranking (pareto_rows tp acc k cs) = [k..<k + length cs]"
proof (induction cs arbitrary: acc k)
  case Nil
  then show ?case by simp
next
  case (Cons c cs)
  have "[k..<k + length (c # cs)] = k # [Suc k..<Suc k + length cs]"
    by (simp add: upt_rec)
  with Cons show ?case by (simp add: Let_def)
qed

lemma venta_split: "x = venta_bruta x - venta_devolucion x"
  by (simp add: venta_bruta_def venta_devolucion_def)




lemma pareto_of_sales_facts:
  assumes "pareto_of_sales hc hdesc df = Inr (facts, dims)" and "f \<in> set facts"
  shows "\<exists>u \<in> set (fact_sums hc df). f = round_fact u"
  using assms
  by (auto simp: pareto_of_sales_def Let_def fact_ventas_def split: if_splits)

lemma sum_list_map_pos:
  assumes "xs \<noteq> []" and "\<forall>x \<in> set xs. (0::rat) < f x"
  shows "0 < sum_list (map f xs)"
proof -
  from assms(1) obtain x xs' where xs: "xs = x # xs'" by (cases xs) auto
  have "0 \<le> sum_list (map f xs')"
    by (rule sum_list_nonneg) (use assms(2) xs in \<open>auto intro: less_imp_le\<close>)
  moreover have "0 < f x" using assms(2) xs by simp
  ultimately show ?thesis unfolding xs by simp
qed

section \<open>Claims about the engine\<close>

text \<open>
  C1. Whenever the engine returns its two tables, the sum of \<^verbatim>\<open>Venta_Neta\<close> over the
  exported fact rows (the fact rows whose item is in the ranked dimension table) and the
  sum of \<^verbatim>\<open>Venta_Neta_Total\<close> over the dimension rows differ by at most 0.01. With
  exact numbers the two sums are equal (lemma \<open>pareto_of_sales_sums\<close>): each dimension
  total is the sum of the fact rows of its item.
\<close>

theorem fact_total_equals_dim_total:
  assumes "calculate_pareto df = Inr (facts, dims)"
  shows "\<bar>sum_list (map fact_Venta_Neta facts) - sum_list (map Venta_Neta_Total dims)\<bar>
           \<le> 1 / 100"
proof -
  from calculate_pareto_Inr [OF assms] obtain sales hc hdesc
    where "pareto_of_sales hc hdesc sales = Inr (facts, dims)"
    by blast
  then have "sum_list (map fact_Venta_Neta facts) = sum_list (map Venta_Neta_Total dims)"
    by (rule pareto_of_sales_sums)
  then show ?thesis by simp
qed

theorem fact_total_equals_dim_total_witness:
  "calculate_pareto example_clean = Inr (example_facts, example_dims) \<and>
   \<bar>sum_list (map fact_Venta_Neta example_facts) -
     sum_list (map Venta_Neta_Total example_dims)\<bar> \<le> 1 / 100"
proof -
  have run: "calculate_pareto example_clean = Inr (example_facts, example_dims)"
    by code_simp
  from fact_total_equals_dim_total [OF run] run show ?thesis by simp
qed

text \<open>
  C5. In every dimension table the engine returns, a row of class \<open>A\<close> has
  \<^verbatim>\<open>Porcentaje_Acumulado\<close> at most 0.80, a row of class \<open>B\<close> has it above 0.80 and
  at most 0.95, and a row of class \<open>C\<close> has it above 0.95.
\<close>

theorem abc_class_boundaries:
  assumes "calculate_pareto df = Inr (facts, dims)" and "r \<in> set dims"
  shows "(Clasificacion_ABC r = A \<longrightarrow> Porcentaje_Acumulado r \<le> 80 / 100) \<and>
         (Clasificacion_ABC r = B \<longrightarrow>
            80 / 100 < Porcentaje_Acumulado r \<and> Porcentaje_Acumulado r \<le> 95 / 100) \<and>
         (Clasificacion_ABC r = C \<longrightarrow> 95 / 100 < Porcentaje_Acumulado r)"
proof -
  from calculate_pareto_Inr [OF assms(1)] obtain sales hc hdesc
    where "pareto_of_sales hc hdesc sales = Inr (facts, dims)"
    by blast
  from pareto_of_sales_dims [OF this] obtain tp ranked where "dims = pareto_rows tp 0 1 ranked"
    by blast
  with assms(2) have "Clasificacion_ABC r = classify (Porcentaje_Acumulado r)"
    by (simp add: pareto_rows_class)
  then show ?thesis using classify_cases [of "Porcentaje_Acumulado r"] by simp
qed

theorem abc_class_boundaries_witness:
  "calculate_pareto example_clean = Inr (example_facts, example_dims) \<and>
   example_dims ! 0 \<in> set example_dims \<and>
   Clasificacion_ABC (example_dims ! 0) = B \<and>
   80 / 100 < Porcentaje_Acumulado (example_dims ! 0) \<and>
   Porcentaje_Acumulado (example_dims ! 0) \<le> 95 / 100 \<and>
   example_dims ! 1 \<in> set example_dims \<and>
   Clasificacion_ABC (example_dims ! 1) = C \<and>
   95 / 100 < Porcentaje_Acumulado (example_dims ! 1)"
proof -
  have run: "calculate_pareto example_clean = Inr (example_facts, example_dims)"
    by code_simp
  have m0: "example_dims ! 0 \<in> set example_dims" and m1: "example_dims ! 1 \<in> set example_dims"
    by (simp_all add: example_dims_def)
  have c0: "Clasificacion_ABC (example_dims ! 0) = B"
    and c1: "Clasificacion_ABC (example_dims ! 1) = C"
    by (simp_all add: example_dims_def)
  from abc_class_boundaries [OF run m0] abc_class_boundaries [OF run m1] run m0 m1 c0 c1
  show ?thesis by simp
qed

text \<open>
  C6. In every dimension table the engine returns, \<^verbatim>\<open>Porcentaje_Acumulado\<close> does
  not decrease as \<^verbatim>\<open>Ranking\<close> grows; the ranks are \<open>1, \<dots>, n\<close> in row order, so
  the last row has the highest rank; and its \<^verbatim>\<open>Porcentaje_Acumulado\<close> is 1 up to the
  rounding of the \<open>n\<close> shares to 4 places, which moves each share by at most 0.00005:
  it differs from 1 by at most \<open>n \<times> 0.00005\<close>.
\<close>

theorem cumulative_share_monotone:
  assumes "calculate_pareto df = Inr (facts, dims)"
  shows "(\<forall>r \<in> set dims. \<forall>s \<in> set dims.
            Ranking r \<le> Ranking s \<longrightarrow> Porcentaje_Acumulado r \<le> Porcentaje_Acumulado s) \<and>
         dims \<noteq> [] \<and>
         map Ranking dims = [1..<Suc (length dims)] \<and>
         Ranking (last dims) = length dims \<and>
         \<bar>Porcentaje_Acumulado (last dims) - 1\<bar> \<le> of_nat (length dims) * (5 / 100000)"
proof -
  from calculate_pareto_Inr [OF assms] obtain sales hc hdesc
    where "pareto_of_sales hc hdesc sales = Inr (facts, dims)"
    by blast
  from pareto_of_sales_dims [OF this] obtain ranked where
    ne: "ranked \<noteq> []" and pos: "\<forall>c \<in> set ranked. 0 < cand_Venta_Neta_Total c" and
    dims: "dims = pareto_rows (sum_list (map cand_Venta_Neta_Total ranked)) 0 1 ranked"
    by blast
  define tp where "tp = sum_list (map cand_Venta_Neta_Total ranked)"
  have "0 < tp" unfolding tp_def using ne pos by (rule sum_list_map_pos)
  have dims': "dims = pareto_rows tp 0 1 ranked" by (simp add: dims tp_def)
  have len: "length dims = length ranked" by (simp add: dims' pareto_rows_length)
  have nonneg: "\<forall>c \<in> set ranked. 0 \<le> cand_Venta_Neta_Total c" using pos by auto
  have mono: "\<forall>r \<in> set dims. \<forall>s \<in> set dims.
            Ranking r \<le> Ranking s \<longrightarrow> Porcentaje_Acumulado r \<le> Porcentaje_Acumulado s"
    unfolding dims' using pareto_rows_monotone [OF \<open>0 < tp\<close> nonneg] by blast
  have tpne: "tp \<noteq> 0" using \<open>0 < tp\<close> by simp
  note final = pareto_rows_last [OF ne tp_def tpne]
  have "dims \<noteq> []" using len ne by auto
  moreover have "map Ranking dims = [1..<Suc (length dims)]"
    by (simp add: dims' pareto_rows_ranking pareto_rows_length)
  moreover have "Ranking (last dims) = length dims"
    using final(1) by (simp add: len) (simp add: dims')
  moreover have "\<bar>Porcentaje_Acumulado (last dims) - 1\<bar> \<le> of_nat (length dims) * (5 / 100000)"
    using final(2) by (simp add: len) (simp add: dims')
  ultimately show ?thesis using mono by blast
qed

theorem cumulative_share_monotone_witness:
  "calculate_pareto example_clean = Inr (example_facts, example_dims) \<and>
   example_dims ! 0 \<in> set example_dims \<and> example_dims ! 1 \<in> set example_dims \<and>
   Ranking (example_dims ! 0) \<le> Ranking (example_dims ! 1) \<and>
   Porcentaje_Acumulado (example_dims ! 0) \<le> Porcentaje_Acumulado (example_dims ! 1) \<and>
   Ranking (last example_dims) = length example_dims \<and>
   \<bar>Porcentaje_Acumulado (last example_dims) - 1\<bar> \<le> of_nat (length example_dims) * (5 / 100000)"
proof -
  have run: "calculate_pareto example_clean = Inr (example_facts, example_dims)"
    by code_simp
  have m: "example_dims ! 0 \<in> set example_dims" "example_dims ! 1 \<in> set example_dims"
    "Ranking (example_dims ! 0) \<le> Ranking (example_dims ! 1)"
    by (simp_all add: example_dims_def)
  from cumulative_share_monotone [OF run] m run show ?thesis by blast
qed

text \<open>The rows the engine returns are rows of the fact table it built.\<close>

lemma exported_facts_built:
  assumes "pareto_of_sales hc hdesc sales = Inr (facts, dims)"
  shows "set facts \<subseteq> set (fact_ventas hc sales)"
  using assms by (auto simp: pareto_of_sales_def Let_def split: if_splits)



subsection \<open>The return rate of a candidate\<close>

text \<open>
  What lines 478-480 compute, case by case: \<^verbatim>\<open>fillna(0)\<close> turns the undefined
  \<open>0 / 0\<close> into 0, and leaves the infinite quotient of a positive return total by a
  zero gross total.
\<close>

lemma round_dec_zero: "round_dec n 0 = 0"
  by (simp add: round_dec_def rint_def)

lemma candidate_tasa:
  assumes "c \<in> set (dim_articulos facts descs)"
  shows "cand_Tasa_Devolucion c =
     (if cand_Venta_Bruta_Total c \<noteq> 0
      then Fin (round_dec 4 (cand_Venta_Devolucion_Total c / cand_Venta_Bruta_Total c))
      else if cand_Venta_Devolucion_Total c = 0 then Fin 0
      else if cand_Venta_Devolucion_Total c > 0 then PosInf else NegInf)"
  using assms by (auto simp: dim_articulos_def Let_def pd_divide_def round_dec_zero)

text \<open>The engine reads the rows of \<open>example_clean\<close> as \<open>example_sales\<close>.\<close>

lemma example_clean_sales: "sales_of example_clean = Some example_sales"
  by code_simp

text \<open>
  C8. The claim: for every item of the candidate dimension table, \<^verbatim>\<open>Tasa_Devolucion\<close>
  is \<^verbatim>\<open>Venta_Devolucion_Total / Venta_Bruta_Total\<close>, and 0 when
  \<^verbatim>\<open>Venta_Bruta_Total\<close> is 0, never infinite. The code on the rows of
  \<open>example_clean\<close>: item \<open>Y2\<close> has only a return of 150, so its gross total is 0, its
  return total 150, and its rate is infinite. The statistics of line 445 guard the same quotient with
  \<^verbatim>\<open>if total_bruta > 0 else 0\<close>.
\<close>

theorem tasa_devolucion_infinite:
  "map (\<lambda>c. (cand_Articulo c, cand_Venta_Bruta_Total c, cand_Venta_Devolucion_Total c,
             cand_Tasa_Devolucion c))
       (candidates True True example_sales) =
     [(''X1'', 1000, 0, Fin 0), (''Y2'', 0, 150, PosInf), (''Z3'', 250, 50, Fin (1 / 5))]"
  by code_simp

section \<open>Claims about the header sniffer\<close>

text \<open>
  A table with two columns that each contain a keyword is accepted: the count of pairs is
  at least the count of such columns.
\<close>

lemma count_pairs_ge:
  "length (filter (\<lambda>col. \<exists>kw \<in> set kws. P kw col) cols) \<le>
   length [(col, kw). col \<leftarrow> cols, kw \<leftarrow> kws, P kw col]"
proof (induction cols)
  case Nil
  then show ?case by simp
next
  case (Cons col cols)
  show ?case
  proof (cases "\<exists>kw \<in> set kws. P kw col")
    case True
    then have "1 \<le> length [(col, kw). kw \<leftarrow> kws, P kw col]"
      by (induction kws) auto
    with Cons True show ?thesis by simp
  next
    case False
    with Cons show ?thesis by simp
  qed
qed

lemma two_valid_columns_accepted:
  assumes "\<not> df_empty df" and "3 \<le> length (columns df)" and "2 \<le> valid_column_count E df"
  shows "has_valid_columns E df"
proof -
  have "valid_column_count E df =
        length (filter (\<lambda>col. \<exists>kw \<in> set keywords_list. sublist kw col)
                  (map (\<lambda>c. remove_accents E (str_lower E c)) (columns df)))"
    by (simp add: valid_column_count_def filter_map comp_def)
  also have "\<dots> \<le> length [(col, kw). col \<leftarrow> map (\<lambda>c. remove_accents E (str_lower E c)) (columns df),
                               kw \<leftarrow> keywords_list, sublist kw col]"
    by (rule count_pairs_ge)
  finally show ?thesis using assms by (simp add: has_valid_columns_def Let_def)
qed

text \<open>
  C7. The claim: a parse is accepted exactly when the table is not empty, has at least 3
  columns, and has at least 2 columns that contain a keyword. The code on the parse
  \<open>title_parse\<close>: the table is not empty and has 3 columns, one column only contains a
  keyword, and it contains two of them (\<open>art\<close> and \<open>total\<close>), so the count of pairs is 2
  and the parse is accepted.
\<close>

theorem has_valid_columns_counts_pairs:
  "has_valid_columns ascii_runtime title_parse \<and>
   \<not> df_empty title_parse \<and> length (columns title_parse) = 3 \<and>
   valid_column_count ascii_runtime title_parse = 1"
  by code_simp

section \<open>Properties of the column normalizer\<close>

text \<open>
  The dictionary after the loop: a label outside the list keeps its entry, an entry is
  never removed, every new entry comes from one of the two branches, and only the first
  matching label can be sent to \<^verbatim>\<open>Articulo\<close>.
\<close>

lemma other_target_range:
  "other_target k = Some t \<Longrightarrow>
   t \<in> {''Descripcion'', ''Cantidad'', ''Precio'', ''Total_precio''}"
  by (auto simp: other_target_def split: if_splits)

lemma other_target_not_articulo: "other_target k \<noteq> Some ''Articulo''"
  using other_target_range [of k "''Articulo''"] by auto

lemma lower_canonical:
  "ascii_lower ''Articulo'' = ''articulo''"
  "ascii_lower ''Descripcion'' = ''descripcion''"
  "ascii_lower ''Cantidad'' = ''cantidad''"
  "ascii_lower ''Precio'' = ''precio''"
  "ascii_lower ''Total_precio'' = ''total_precio''"
  "ascii_lower ''Sucursal'' = ''sucursal''"
  by code_simp+

lemma match_canonical:
  "articulo_match ''articulo''"
  "\<not> articulo_match ''descripcion''"
  "\<not> articulo_match ''cantidad''"
  "\<not> articulo_match ''precio''"
  "\<not> articulo_match ''total_precio''"
  "\<not> articulo_match ''sucursal''"
  by code_simp+

lemma target_canonical:
  "other_target ''articulo'' = None"
  "other_target ''descripcion'' = Some ''Descripcion''"
  "other_target ''cantidad'' = Some ''Cantidad''"
  "other_target ''precio'' = Some ''Precio''"
  "other_target ''total_precio'' = Some ''Total_precio''"
  "other_target ''sucursal'' = None"
  by code_simp+

lemma fuzzy_detection_step:
  "fuzzy_detection E (x # xs) m f =
   fuzzy_detection E xs (case decide E f x of Some t \<Rightarrow> m(x \<mapsto> t) | None \<Rightarrow> m)
     (f \<or> articulo_match (col_clean_of E x))"
  by (auto simp: decide_def split: option.splits)

lemma fuzzy_detection_frame:
  "c \<notin> set cols \<Longrightarrow> fuzzy_detection E cols m f c = m c"
  by (induction cols arbitrary: m f) (auto split: option.splits)

lemma fuzzy_detection_keeps:
  "m c \<noteq> None \<Longrightarrow> fuzzy_detection E cols m f c \<noteq> None"
  by (induction cols arbitrary: m f) (auto split: option.splits)

lemma fuzzy_detection_values:
  "fuzzy_detection E cols m f c = Some t \<Longrightarrow>
   m c = Some t \<or> t = ''Articulo'' \<or> other_target (col_clean_of E c) = Some t"
proof (induction cols arbitrary: m f)
  case Nil
  then show ?case by simp
next
  case (Cons x xs)
  define m' where "m' = (case decide E f x of Some t \<Rightarrow> m(x \<mapsto> t) | None \<Rightarrow> m)"
  from Cons.prems have "fuzzy_detection E xs m' (f \<or> articulo_match (col_clean_of E x)) c = Some t"
    unfolding fuzzy_detection_step m'_def .
  from Cons.IH [OF this] show ?case
    by (auto simp: m'_def decide_def split: option.splits if_splits)
qed

lemma fuzzy_detection_unmapped:
  "c \<in> set cols \<Longrightarrow> fuzzy_detection E cols m f c = None \<Longrightarrow>
   other_target (col_clean_of E c) = None"
proof (induction cols arbitrary: m f)
  case Nil
  then show ?case by simp
next
  case (Cons x xs)
  define m' where "m' = (case decide E f x of Some t \<Rightarrow> m(x \<mapsto> t) | None \<Rightarrow> m)"
  from Cons.prems(2)
  have res: "fuzzy_detection E xs m' (f \<or> articulo_match (col_clean_of E x)) c = None"
    unfolding fuzzy_detection_step m'_def .
  show ?case
  proof (cases "c = x")
    case True
    from res have "m' c = None" using fuzzy_detection_keeps [of m' c] by blast
    with True show ?thesis
      by (auto simp: m'_def decide_def split: option.splits if_splits)
  next
    case False
    with Cons.prems(1) have "c \<in> set xs" by simp
    from Cons.IH [OF this res] show ?thesis .
  qed
qed

lemma fuzzy_detection_articulo:
  "fuzzy_detection E cols m f c = Some ''Articulo'' \<Longrightarrow>
   m c = Some ''Articulo'' \<or>
   (\<not> f \<and> find (\<lambda>c. articulo_match (col_clean_of E c)) cols = Some c)"
proof (induction cols arbitrary: m f)
  case Nil
  then show ?case by simp
next
  case (Cons x xs)
  define m' where "m' = (case decide E f x of Some t \<Rightarrow> m(x \<mapsto> t) | None \<Rightarrow> m)"
  from Cons.prems
  have "fuzzy_detection E xs m' (f \<or> articulo_match (col_clean_of E x)) c = Some ''Articulo''"
    unfolding fuzzy_detection_step m'_def .
  from Cons.IH [OF this] other_target_not_articulo [of "col_clean_of E x"] show ?case
    by (auto simp: m'_def decide_def split: option.splits if_splits)
qed

lemma fuzzy_detection_first:
  "distinct cols \<Longrightarrow> find (\<lambda>c. articulo_match (col_clean_of E c)) cols = Some a \<Longrightarrow>
   fuzzy_detection E cols m False a = Some ''Articulo''"
proof (induction cols arbitrary: m)
  case Nil
  then show ?case by simp
next
  case (Cons x xs)
  show ?case
  proof (cases "articulo_match (col_clean_of E x)")
    case True
    with Cons.prems have "a = x" "x \<notin> set xs" by auto
    with True show ?thesis by (simp add: fuzzy_detection_frame)
  next
    case False
    with Cons.prems have "find (\<lambda>c. articulo_match (col_clean_of E c)) xs = Some a" "distinct xs"
      by auto
    with False Cons.IH show ?thesis by (auto split: option.splits)
  qed
qed

lemma find_first_index:
  "i < length xs \<Longrightarrow> P (xs ! i) \<Longrightarrow> \<forall>j<i. \<not> P (xs ! j) \<Longrightarrow> find P xs = Some (xs ! i)"
proof (induction xs arbitrary: i)
  case Nil
  then show ?case by simp
next
  case (Cons x xs)
  show ?case
  proof (cases i)
    case 0
    with Cons.prems show ?thesis by simp
  next
    case (Suc k)
    with Cons.prems have "\<not> P x" by auto
    moreover have "find P xs = Some (xs ! k)"
      using Cons.prems Suc by (intro Cons.IH) auto
    ultimately show ?thesis using Suc by simp
  qed
qed

lemma fuzzy_detection_self:
  assumes "\<forall>c \<in> set cols. other_target (col_clean_of E c) = None \<or>
                          other_target (col_clean_of E c) = Some c"
    and "\<not> f \<longrightarrow> find (\<lambda>c. articulo_match (col_clean_of E c)) cols \<in> {None, Some ''Articulo''}"
    and "\<forall>c. m c = None \<or> m c = Some c"
  shows "fuzzy_detection E cols m f c = None \<or> fuzzy_detection E cols m f c = Some c"
  using assms
proof (induction cols arbitrary: m f)
  case Nil
  then show ?case by simp
next
  case (Cons x xs)
  define m' where "m' = (case decide E f x of Some t \<Rightarrow> m(x \<mapsto> t) | None \<Rightarrow> m)"
  define f' where "f' = (f \<or> articulo_match (col_clean_of E x))"
  have rest: "\<forall>c \<in> set xs. other_target (col_clean_of E c) = None \<or>
                            other_target (col_clean_of E c) = Some c"
    using Cons.prems(1) by simp
  have flag: "\<not> f' \<longrightarrow>
      find (\<lambda>c. articulo_match (col_clean_of E c)) xs \<in> {None, Some ''Articulo''}"
    using Cons.prems(2) by (auto simp: f'_def)
  have d: "decide E f x = None \<or> decide E f x = Some x"
    using Cons.prems(1,2) by (auto simp: decide_def)
  have "m' c = None \<or> m' c = Some c" for c
    using d Cons.prems(3) [rule_format, of c] by (cases "c = x") (auto simp: m'_def)
  then have "\<forall>c. m' c = None \<or> m' c = Some c" by blast
  from Cons.IH [OF rest flag this] show ?case
    unfolding fuzzy_detection_step m'_def f'_def .
qed

text \<open>
  What the normalizer returns, when it raises, and where it puts \<^verbatim>\<open>Articulo\<close> when
  the cleaned labels are pairwise distinct.
\<close>

lemma normalized_columns:
  "super_normalize_columns E df = Inr df' \<Longrightarrow>
   rows df' = rows df \<and>
   columns df' = map (rename_label (fuzzy_detection E (new_columns E df) Map.empty False))
                   (new_columns E df) \<and>
   ''Articulo'' \<in> set (columns df')"
  by (auto simp: super_normalize_columns_def Let_def split: if_splits)

lemma normalize_no_match:
  assumes H: "col_clean_of E ''Articulo'' = ''articulo''"
    and none: "\<forall>c \<in> set (new_columns E df). \<not> articulo_match (col_clean_of E c)"
  shows "super_normalize_columns E df = Inl KeyError"
proof -
  define cl where "cl = new_columns E df"
  define m where "m = fuzzy_detection E cl Map.empty False"
  have renamed: "rename_label m c \<noteq> ''Articulo''" if c: "c \<in> set cl" for c
  proof (cases "m c")
    case None
    have "articulo_match (col_clean_of E ''Articulo'')" by (simp add: H match_canonical)
    with none c have "c \<noteq> ''Articulo''" unfolding cl_def by blast
    with None show ?thesis by (simp add: rename_label_def)
  next
    case (Some t)
    have "t \<noteq> ''Articulo''"
    proof
      assume "t = ''Articulo''"
      with Some have "fuzzy_detection E cl Map.empty False c = Some ''Articulo''"
        by (simp add: m_def)
      from fuzzy_detection_articulo [OF this]
      have "find (\<lambda>c. articulo_match (col_clean_of E c)) cl = Some c" by simp
      then have "articulo_match (col_clean_of E c)" by (auto simp: find_Some_iff)
      with none c show False unfolding cl_def by blast
    qed
    with Some show ?thesis by (simp add: rename_label_def)
  qed
  have "''Articulo'' \<notin> set (map (rename_label m) cl)"
  proof
    assume "''Articulo'' \<in> set (map (rename_label m) cl)"
    then obtain c where "c \<in> set cl" "rename_label m c = ''Articulo''" by auto
    with renamed show False by blast
  qed
  then show ?thesis by (simp add: super_normalize_columns_def Let_def cl_def m_def)
qed

lemma normalize_first_match:
  assumes H: "col_clean_of E ''Articulo'' = ''articulo''"
    and dist: "distinct cl"
    and i: "i < length cl" "articulo_match (col_clean_of E (cl ! i))"
           "\<forall>j<i. \<not> articulo_match (col_clean_of E (cl ! j))"
  defines "out \<equiv> map (rename_label (fuzzy_detection E cl Map.empty False)) cl"
  shows "out ! i = ''Articulo''"
    and "\<forall>j < length cl. j \<noteq> i \<longrightarrow> (out ! j = ''Articulo'' \<longleftrightarrow> cl ! j = ''Articulo'')"
proof -
  define m where "m = fuzzy_detection E cl Map.empty False"
  have first: "find (\<lambda>c. articulo_match (col_clean_of E c)) cl = Some (cl ! i)"
    using i by (intro find_first_index) auto
  from fuzzy_detection_first [OF dist first] have mi: "m (cl ! i) = Some ''Articulo''"
    by (simp add: m_def)
  then show "out ! i = ''Articulo''"
    using i(1) by (simp add: out_def m_def [symmetric] rename_label_def)
  show "\<forall>j < length cl. j \<noteq> i \<longrightarrow> (out ! j = ''Articulo'' \<longleftrightarrow> cl ! j = ''Articulo'')"
  proof (intro allI impI)
    fix j assume j: "j < length cl" "j \<noteq> i"
    with dist i(1) have ne: "cl ! j \<noteq> cl ! i" by (simp add: nth_eq_iff_index_eq)
    have not_art: "m (cl ! j) \<noteq> Some ''Articulo''"
    proof
      assume "m (cl ! j) = Some ''Articulo''"
      from fuzzy_detection_articulo [OF this [unfolded m_def]] first ne show False by simp
    qed
    show "out ! j = ''Articulo'' \<longleftrightarrow> cl ! j = ''Articulo''"
    proof
      assume "out ! j = ''Articulo''"
      with j(1) not_art show "cl ! j = ''Articulo''"
        by (auto simp: out_def m_def [symmetric] rename_label_def split: option.splits)
    next
      assume eq: "cl ! j = ''Articulo''"
      have "m ''Articulo'' = None"
      proof (cases "m ''Articulo''")
        case None
        then show ?thesis .
      next
        case (Some t)
        from fuzzy_detection_values [OF Some [unfolded m_def]] H not_art eq Some
        show ?thesis by (auto simp: target_canonical)
      qed
      with j(1) eq show "out ! j = ''Articulo''"
        by (simp add: out_def m_def [symmetric] rename_label_def)
    qed
  qed
qed

section \<open>Claims about the column normalizer\<close>

text \<open>
  C2. The claim: normalization returns a table in which exactly one column is named
  \<^verbatim>\<open>Articulo\<close>, the first column that matches, no later column taking the role,
  or raises. The code has the flag \<^verbatim>\<open>articulo_found\<close> for this: with the labels
  \<^verbatim>\<open>Articulo\<close>, \<^verbatim>\<open>Producto\<close> in this order the second column is not renamed
  and one column is named \<^verbatim>\<open>Articulo\<close>. The flag limits what the dictionary
  renames, not what is already named: in \<open>two_articulo_table\<close> the labels come in the
  other order, \<^verbatim>\<open>Producto\<close> is the first match and is renamed, the later column
  keeps the label \<^verbatim>\<open>Articulo\<close> it came with, and the check of lines 146-153 only
  asks that the label occurs. The table returned has two columns named
  \<^verbatim>\<open>Articulo\<close>.
\<close>

theorem normalize_two_articulo_columns:
  "super_normalize_columns ascii_runtime two_articulo_table =
     Inr \<lparr> columns = [''Articulo'', ''Articulo''], rows = [[Str ''Camisa'', Str ''X1'']] \<rparr> \<and>
   count_list [''Articulo'', ''Articulo''] ''Articulo'' = 2 \<and>
   super_normalize_columns ascii_runtime
     \<lparr> columns = [''Articulo'', ''Producto''], rows = [[Str ''X1'', Str ''Camisa'']] \<rparr> =
     Inr \<lparr> columns = [''Articulo'', ''Producto''], rows = [[Str ''X1'', Str ''Camisa'']] \<rparr>"
  by code_simp

text \<open>
  What normalization does guarantee. Let the runtime lowercase the word
  \<^verbatim>\<open>Articulo\<close> as ASCII. Then:
  when no column claims the role, normalization raises \<^verbatim>\<open>KeyError\<close>; when it
  returns a table, the rows are unchanged, the number of columns is unchanged, some column
  is named \<^verbatim>\<open>Articulo\<close> and some original column claimed the role; and when the
  cleaned labels are pairwise distinct and column \<open>i\<close> is the first that claims the role,
  normalization returns a table whose column \<open>i\<close> is named \<^verbatim>\<open>Articulo\<close>, and any
  other column is named \<^verbatim>\<open>Articulo\<close> exactly when its cleaned label already was
  \<^verbatim>\<open>Articulo\<close>. So a second column named \<^verbatim>\<open>Articulo\<close> can only be one that
  carried that very label.
\<close>

theorem normalize_articulo_role:
  assumes "col_clean_of E ''Articulo'' = ''articulo''"
  shows
    "((\<forall>c \<in> set (columns df). \<not> claims_articulo E c) \<longrightarrow>
        super_normalize_columns E df = Inl KeyError) \<and>
     (\<forall>df'. super_normalize_columns E df = Inr df' \<longrightarrow>
        rows df' = rows df \<and> length (columns df') = length (columns df) \<and>
        ''Articulo'' \<in> set (columns df') \<and>
        (\<exists>c \<in> set (columns df). claims_articulo E c)) \<and>
     (distinct (new_columns E df) \<longrightarrow>
        (\<forall>i < length (columns df).
           claims_articulo E (columns df ! i) \<and>
           (\<forall>j<i. \<not> claims_articulo E (columns df ! j)) \<longrightarrow>
           (\<exists>df'. super_normalize_columns E df = Inr df' \<and>
              columns df' ! i = ''Articulo'' \<and>
              (\<forall>j < length (columns df). j \<noteq> i \<longrightarrow>
                 (columns df' ! j = ''Articulo'' \<longleftrightarrow> new_columns E df ! j = ''Articulo'')))))"
proof (intro conjI impI allI)
  assume "\<forall>c \<in> set (columns df). \<not> claims_articulo E c"
  then have "\<forall>c \<in> set (new_columns E df). \<not> articulo_match (col_clean_of E c)"
    by (auto simp: new_columns_def claims_articulo_def)
  with assms show "super_normalize_columns E df = Inl KeyError"
    by (rule normalize_no_match)
next
  fix df' assume run: "super_normalize_columns E df = Inr df'"
  note shape = normalized_columns [OF run]
  from shape show "rows df' = rows df" by (rule conjunct1)
  from shape have "length (columns df') = length (new_columns E df)" by simp
  then show "length (columns df') = length (columns df)" by (simp add: new_columns_def)
  from shape show "''Articulo'' \<in> set (columns df')" by blast
  show "\<exists>c \<in> set (columns df). claims_articulo E c"
  proof (rule ccontr)
    assume "\<not> (\<exists>c \<in> set (columns df). claims_articulo E c)"
    then have "\<forall>c \<in> set (new_columns E df). \<not> articulo_match (col_clean_of E c)"
      by (auto simp: new_columns_def claims_articulo_def)
    from normalize_no_match [OF assms this] run show False by simp
  qed
next
  fix i
  assume dist: "distinct (new_columns E df)" and i: "i < length (columns df)"
    and first: "claims_articulo E (columns df ! i) \<and>
                (\<forall>j<i. \<not> claims_articulo E (columns df ! j))"
  define cl where "cl = new_columns E df"
  define out where "out = map (rename_label (fuzzy_detection E cl Map.empty False)) cl"
  have len: "length cl = length (columns df)" by (simp add: cl_def new_columns_def)
  have claims: "claims_articulo E (columns df ! j) = articulo_match (col_clean_of E (cl ! j))"
    if "j < length (columns df)" for j
    using that by (simp add: claims_articulo_def cl_def new_columns_def)
  have i1: "i < length cl" using i by (simp add: len)
  have i2: "articulo_match (col_clean_of E (cl ! i))" using first i claims by blast
  have i3: "\<forall>j<i. \<not> articulo_match (col_clean_of E (cl ! j))"
  proof (intro allI impI)
    fix j assume "j < i"
    with i have "j < length (columns df)" by simp
    from claims [OF this] first \<open>j < i\<close> show "\<not> articulo_match (col_clean_of E (cl ! j))"
      by blast
  qed
  note named = normalize_first_match [OF assms dist [folded cl_def] i1 i2 i3, folded out_def]
  have "out ! i \<in> set out" using i1 by (simp add: out_def)
  with named(1) have "''Articulo'' \<in> set out" by simp
  then have run: "super_normalize_columns E df = Inr (df\<lparr>columns := out\<rparr>)"
    by (simp add: super_normalize_columns_def Let_def out_def cl_def)
  show "\<exists>df'. super_normalize_columns E df = Inr df' \<and>
              columns df' ! i = ''Articulo'' \<and>
              (\<forall>j < length (columns df). j \<noteq> i \<longrightarrow>
                 (columns df' ! j = ''Articulo'' \<longleftrightarrow> new_columns E df ! j = ''Articulo''))"
  proof (intro exI conjI)
    show "super_normalize_columns E df = Inr (df\<lparr>columns := out\<rparr>)" by (rule run)
    show "columns (df\<lparr>columns := out\<rparr>) ! i = ''Articulo''" using named(1) by simp
    show "\<forall>j < length (columns df). j \<noteq> i \<longrightarrow>
            (columns (df\<lparr>columns := out\<rparr>) ! j = ''Articulo'' \<longleftrightarrow>
             new_columns E df ! j = ''Articulo'')"
      using named(2) len by (simp add: cl_def)
  qed
qed

theorem normalize_articulo_role_witness:
  "col_clean_of ascii_runtime ''Articulo'' = ''articulo'' \<and>
   \<not> claims_articulo ascii_runtime ''Fecha'' \<and>
   \<not> claims_articulo ascii_runtime ''Descripcion'' \<and>
   \<not> claims_articulo ascii_runtime ''Total'' \<and>
   super_normalize_columns ascii_runtime no_item_table = Inl KeyError \<and>
   distinct (new_columns ascii_runtime scenario_table) \<and>
   claims_articulo ascii_runtime (columns scenario_table ! 0) \<and>
   super_normalize_columns ascii_runtime scenario_table =
     Inr \<lparr> columns = [''Articulo'', ''Descripcion'', ''Cantidad'', ''Precio'', ''Total_precio''],
           rows = [[Str ''X1'', Str ''Camisa'', Num 2, Num 400, Num 800]] \<rparr> \<and>
   rows scenario_table = [[Str ''X1'', Str ''Camisa'', Num 2, Num 400, Num 800]]"
proof -
  have H: "col_clean_of ascii_runtime ''Articulo'' = ''articulo''" by code_simp
  have none: "\<not> claims_articulo ascii_runtime ''Fecha''"
    "\<not> claims_articulo ascii_runtime ''Descripcion''"
    "\<not> claims_articulo ascii_runtime ''Total''"
    by code_simp+
  then have all: "\<forall>c \<in> set (columns no_item_table). \<not> claims_articulo ascii_runtime c"
    by (simp add: no_item_table_def)
  have dist: "distinct (new_columns ascii_runtime scenario_table)" by code_simp
  have first: "claims_articulo ascii_runtime (columns scenario_table ! 0)" by code_simp
  have run: "super_normalize_columns ascii_runtime scenario_table =
     Inr \<lparr> columns = [''Articulo'', ''Descripcion'', ''Cantidad'', ''Precio'', ''Total_precio''],
           rows = [[Str ''X1'', Str ''Camisa'', Num 2, Num 400, Num 800]] \<rparr>"
    by code_simp
  from normalize_articulo_role [OF H, of no_item_table] all
  have raises: "super_normalize_columns ascii_runtime no_item_table = Inl KeyError" by blast
  from normalize_articulo_role [OF H, of scenario_table] run
  have "rows \<lparr> columns = [''Articulo'', ''Descripcion'', ''Cantidad'', ''Precio'', ''Total_precio''],
           rows = [[Str ''X1'', Str ''Camisa'', Num 2, Num 400, Num 800]] \<rparr> = rows scenario_table"
    by blast
  then have "rows scenario_table = [[Str ''X1'', Str ''Camisa'', Num 2, Num 400, Num 800]]"
    by simp
  with H none raises dist first run show ?thesis by blast
qed

text \<open>
  C9 rests on the canonical labels being read as ASCII, and on a table being left alone
  when every label is its own target and the first match is already \<^verbatim>\<open>Articulo\<close>.
\<close>

lemma canonical_key:
  assumes "\<forall>L \<in> set canonical_labels. reads_ascii E L"
  shows "col_clean_of E ''Articulo'' = ''articulo''"
    "col_clean_of E ''Descripcion'' = ''descripcion''"
    "col_clean_of E ''Cantidad'' = ''cantidad''"
    "col_clean_of E ''Precio'' = ''precio''"
    "col_clean_of E ''Total_precio'' = ''total_precio''"
    "col_clean_of E ''Sucursal'' = ''sucursal''"
  using assms by (simp_all add: canonical_labels_def reads_ascii_def lower_canonical)

lemma canonical_clean:
  assumes "\<forall>L \<in> set canonical_labels. reads_ascii E L" and "c \<in> set canonical_labels"
  shows "remove_accents E (str_strip E c) = c"
  using assms by (auto simp: reads_ascii_def)

lemma canonical_target:
  assumes "\<forall>L \<in> set canonical_labels. reads_ascii E L" and "c \<in> set canonical_labels"
  shows "other_target (col_clean_of E c) = None \<or> other_target (col_clean_of E c) = Some c"
  using assms(2) canonical_key [OF assms(1)]
  by (auto simp: canonical_labels_def target_canonical)

lemma canonical_match:
  assumes "\<forall>L \<in> set canonical_labels. reads_ascii E L" and "c \<in> set canonical_labels"
    and "articulo_match (col_clean_of E c)"
  shows "c = ''Articulo''"
  using assms(2,3) canonical_key [OF assms(1)]
  by (auto simp: canonical_labels_def match_canonical)

lemma rename_self:
  assumes "\<forall>c. m c = None \<or> m c = Some c"
  shows "map (rename_label m) cols = cols"
proof -
  have "rename_label m c = c" for c
    using assms [rule_format, of c] by (auto simp: rename_label_def)
  then show ?thesis by (simp add: map_idI)
qed

lemma normalize_stable:
  assumes targets: "\<forall>c \<in> set (columns df). other_target (col_clean_of E c) = None \<or>
                          other_target (col_clean_of E c) = Some c"
    and first: "find (\<lambda>c. articulo_match (col_clean_of E c)) (columns df) \<in> {None, Some ''Articulo''}"
    and clean: "new_columns E df = columns df"
    and art: "''Articulo'' \<in> set (columns df)"
  shows "super_normalize_columns E df = Inr df"
proof -
  define m where "m = fuzzy_detection E (columns df) Map.empty False"
  have "\<forall>c. m c = None \<or> m c = Some c"
    unfolding m_def using fuzzy_detection_self [OF targets, of False Map.empty] first by simp
  then have out: "map (rename_label m) (columns df) = columns df" by (rule rename_self)
  show ?thesis
    unfolding super_normalize_columns_def Let_def clean m_def [symmetric] out
    using art by simp
qed

text \<open>
  C9, as the claim states it, fails in its second half: normalizing twice is not the same
  as normalizing once for every table. In \<open>repeated_label_table\<close> two labels are equal
  after trimming; the dictionary entry of the first (\<^verbatim>\<open>Articulo\<close>) is overwritten by
  that of the second (\<^verbatim>\<open>Descripcion\<close>), and the table is returned because a later
  column is already labelled \<^verbatim>\<open>Articulo\<close>. In the second run the column
  \<^verbatim>\<open>Partida\<close> is the first to match and is renamed.
\<close>

theorem normalize_not_idempotent:
  "super_normalize_columns ascii_runtime repeated_label_table =
     Inr \<lparr> columns = [''Descripcion'', ''Descripcion'', ''Partida'', ''Articulo''],
           rows = [[Str ''Camisa'', Str ''Camisa azul'', Str ''P7'', Str ''X1'']] \<rparr> \<and>
   super_normalize_columns ascii_runtime
     \<lparr> columns = [''Descripcion'', ''Descripcion'', ''Partida'', ''Articulo''],
       rows = [[Str ''Camisa'', Str ''Camisa azul'', Str ''P7'', Str ''X1'']] \<rparr> =
     Inr \<lparr> columns = [''Descripcion'', ''Descripcion'', ''Articulo'', ''Articulo''],
           rows = [[Str ''Camisa'', Str ''Camisa azul'', Str ''P7'', Str ''X1'']] \<rparr> \<and>
   [''Descripcion'', ''Descripcion'', ''Partida'', ''Articulo''] \<noteq>
   [''Descripcion'', ''Descripcion'', ''Articulo'', ''Articulo'']"
  by code_simp

text \<open>
  C9, amended. Let the runtime read the six canonical labels as ASCII. A table whose
  labels are canonical and include \<^verbatim>\<open>Articulo\<close> is returned unchanged, labels and
  cells. And for a table whose cleaned labels are pairwise distinct and are left alone by
  a second cleaning, normalizing the result of normalization returns that result again.
  Both conditions are needed. The first fails in \<open>repeated_label_table\<close>. The second can
  fail because line 97 trims the label before it removes the accents: a label that ends
  in a spacing accent whose decomposition starts with a blank is cleaned to a label that
  ends in a blank, which a second cleaning trims.
\<close>

theorem normalize_idempotent:
  assumes R: "\<forall>L \<in> set canonical_labels. reads_ascii E L"
  shows
    "(set (columns df) \<subseteq> set canonical_labels \<and> ''Articulo'' \<in> set (columns df) \<longrightarrow>
        super_normalize_columns E df = Inr df) \<and>
     (distinct (new_columns E df) \<and>
      (\<forall>c \<in> set (new_columns E df). remove_accents E (str_strip E c) = c) \<longrightarrow>
        (\<forall>df'. super_normalize_columns E df = Inr df' \<longrightarrow>
           super_normalize_columns E df' = Inr df'))"
proof (intro conjI impI allI)
  assume canon: "set (columns df) \<subseteq> set canonical_labels \<and> ''Articulo'' \<in> set (columns df)"
  show "super_normalize_columns E df = Inr df"
  proof (rule normalize_stable)
    show "\<forall>c \<in> set (columns df). other_target (col_clean_of E c) = None \<or>
                          other_target (col_clean_of E c) = Some c"
      using canon canonical_target [OF R] by blast
    show "find (\<lambda>c. articulo_match (col_clean_of E c)) (columns df) \<in> {None, Some ''Articulo''}"
    proof (cases "find (\<lambda>c. articulo_match (col_clean_of E c)) (columns df)")
      case None
      then show ?thesis by simp
    next
      case (Some a)
      then have "a \<in> set (columns df)" "articulo_match (col_clean_of E a)"
        by (auto simp: find_Some_iff)
      with canon canonical_match [OF R, of a] Some show ?thesis by auto
    qed
    show "new_columns E df = columns df"
      unfolding new_columns_def using canon canonical_clean [OF R] by (intro map_idI) blast
    show "''Articulo'' \<in> set (columns df)" using canon by simp
  qed
next
  fix df'
  assume hyp: "distinct (new_columns E df) \<and>
      (\<forall>c \<in> set (new_columns E df). remove_accents E (str_strip E c) = c)"
    and run: "super_normalize_columns E df = Inr df'"
  define cl where "cl = new_columns E df"
  define m where "m = fuzzy_detection E cl Map.empty False"
  define P where "P = (\<lambda>c. articulo_match (col_clean_of E c))"
  from hyp have dist: "distinct cl" and idem: "\<And>c. c \<in> set cl \<Longrightarrow> remove_accents E (str_strip E c) = c"
    by (auto simp: cl_def)
  note shape = normalized_columns [OF run]
  from shape have out: "columns df' = map (rename_label m) cl"
    unfolding cl_def m_def by blast
  from shape have art: "''Articulo'' \<in> set (columns df')" by blast
  note key = canonical_key [OF R]
  have PA: "P ''Articulo''" by (simp add: P_def key match_canonical)
  have targets4: "t \<in> set canonical_labels \<and> \<not> P t \<and> other_target (col_clean_of E t) = Some t"
    if "other_target k = Some t" for k t
    using other_target_range [OF that] key
    by (auto simp: canonical_labels_def P_def match_canonical target_canonical)
  have mapped: "t = ''Articulo'' \<or> (\<exists>k. other_target k = Some t)" if "m x = Some t" for x t
    using fuzzy_detection_values [OF that [unfolded m_def]] by auto
  \<comment> \<open>what a renamed label looks like\<close>
  have renamed: "(m x = None \<and> rename_label m x = x) \<or>
                 (m x \<noteq> None \<and> rename_label m x = ''Articulo'') \<or>
                 (m x \<noteq> None \<and> (\<exists>k. other_target k = Some (rename_label m x)))" for x
    using mapped [of x] by (cases "m x") (auto simp: rename_label_def)
  have clean: "remove_accents E (str_strip E (rename_label m x)) = rename_label m x"
    if x: "x \<in> set cl" for x
    using renamed [of x] idem [OF x] targets4 canonical_clean [OF R]
    by (auto simp: canonical_labels_def)
  have new: "new_columns E df' = columns df'"
    unfolding new_columns_def out using clean by (intro map_idI) auto
  show "super_normalize_columns E df' = Inr df'"
  proof (rule normalize_stable)
    show "new_columns E df' = columns df'" by (rule new)
    show "''Articulo'' \<in> set (columns df')" by (rule art)
    show "\<forall>c \<in> set (columns df'). other_target (col_clean_of E c) = None \<or>
                          other_target (col_clean_of E c) = Some c"
    proof
      fix c assume "c \<in> set (columns df')"
      then obtain x where x: "x \<in> set cl" and c: "c = rename_label m x" by (auto simp: out)
      from renamed [of x] show "other_target (col_clean_of E c) = None \<or>
                          other_target (col_clean_of E c) = Some c"
      proof (elim disjE conjE exE)
        assume "m x = None" "rename_label m x = x"
        with fuzzy_detection_unmapped [OF x, of E Map.empty False] c show ?thesis
          by (simp add: m_def)
      next
        assume "rename_label m x = ''Articulo''"
        with c show ?thesis by (simp add: key target_canonical)
      next
        fix k assume "other_target k = Some (rename_label m x)"
        from targets4 [OF this] c show ?thesis by simp
      qed
    qed
    show "find (\<lambda>c. articulo_match (col_clean_of E c)) (columns df') \<in> {None, Some ''Articulo''}"
    proof (cases "find P (columns df')")
      case None
      then show ?thesis by (simp add: P_def)
    next
      case (Some a)
      then obtain k where k: "k < length cl" "P (rename_label m (cl ! k))"
        "a = rename_label m (cl ! k)" "\<forall>j<k. \<not> P (rename_label m (cl ! j))"
        by (auto simp: find_Some_iff out)
      have "a = ''Articulo''"
      proof (rule ccontr)
        assume ne: "a \<noteq> ''Articulo''"
        from renamed [of "cl ! k"] k(2,3) ne targets4
        have un: "m (cl ! k) = None" "P (cl ! k)" by auto
        from un(2) k(1) obtain b where "find P cl = Some b"
          by (cases "find P cl") (auto simp: find_None_iff)
        then obtain i where i: "i < length cl" "b = cl ! i" "\<forall>j<i. \<not> P (cl ! j)"
          by (auto simp: find_Some_iff)
        from fuzzy_detection_first [OF dist \<open>find P cl = Some b\<close> [unfolded P_def]]
        have mi: "m (cl ! i) = Some ''Articulo''" by (simp add: m_def i(2))
        with un(1) have "i \<noteq> k" by auto
        moreover from i(3) un(2) have "\<not> k < i" by blast
        ultimately have "i < k" by simp
        moreover from mi have "rename_label m (cl ! i) = ''Articulo''"
          by (simp add: rename_label_def)
        ultimately show False using k(4) PA by auto
      qed
      with Some show ?thesis by (simp add: P_def)
    qed
  qed
qed

theorem normalize_idempotent_witness:
  "list_all (reads_ascii ascii_runtime) canonical_labels \<and>
   list_all (\<lambda>c. c \<in> set canonical_labels) (columns example_table) \<and>
   ''Articulo'' \<in> set (columns example_table) \<and>
   super_normalize_columns ascii_runtime example_table = Inr example_table \<and>
   distinct (new_columns ascii_runtime scenario_table) \<and>
   list_all (\<lambda>c. remove_accents ascii_runtime (str_strip ascii_runtime c) = c)
     (new_columns ascii_runtime scenario_table) \<and>
   super_normalize_columns ascii_runtime scenario_table = Inr scenario_normal \<and>
   super_normalize_columns ascii_runtime scenario_normal = Inr scenario_normal"
proof -
  have R: "list_all (reads_ascii ascii_runtime) canonical_labels" by code_simp
  then have R': "\<forall>L \<in> set canonical_labels. reads_ascii ascii_runtime L"
    by (simp add: list_all_iff)
  have c1: "list_all (\<lambda>c. c \<in> set canonical_labels) (columns example_table)" by code_simp
  have c2: "''Articulo'' \<in> set (columns example_table)" by code_simp
  have d1: "distinct (new_columns ascii_runtime scenario_table)" by code_simp
  have d2: "list_all (\<lambda>c. remove_accents ascii_runtime (str_strip ascii_runtime c) = c)
     (new_columns ascii_runtime scenario_table)" by code_simp
  have run: "super_normalize_columns ascii_runtime scenario_table = Inr scenario_normal"
    by code_simp
  from c1 have c1': "set (columns example_table) \<subseteq> set canonical_labels"
    by (auto simp: list_all_iff)
  from d2 have d2': "\<forall>c \<in> set (new_columns ascii_runtime scenario_table).
      remove_accents ascii_runtime (str_strip ascii_runtime c) = c"
    by (simp add: list_all_iff)
  from normalize_idempotent [OF R', of example_table] c1' c2
  have fixed: "super_normalize_columns ascii_runtime example_table = Inr example_table" by blast
  from normalize_idempotent [OF R', of scenario_table] d1 d2' run
  have again: "super_normalize_columns ascii_runtime scenario_normal = Inr scenario_normal"
    by blast
  from R c1 c2 fixed d1 d2 run again show ?thesis by blast
qed

section \<open>Properties of the Cleaner\<close>

text \<open>Cells of a row after an assignment to a column.\<close>

lemma lookup_put:
  assumes "length row = length cols"
  shows "lookup cols (put cols l v row) l' =
           (if l' = l \<and> l \<in> set cols then v else lookup cols row l')"
  using assms
proof (induction row cols rule: list_induct2)
  case Nil
  then show ?case by (simp add: lookup_def put_def)
next
  case (Cons x xs c cs)
  then show ?case by (auto simp: lookup_def put_def)
qed

lemma lookup_snoc:
  assumes "length row = length cols"
  shows "lookup (cols @ [l]) (row @ [v]) l' =
           (if l' \<in> set cols then lookup cols row l' else if l' = l then v else NaN)"
  using assms
proof (induction row cols rule: list_induct2)
  case Nil
  then show ?case by (simp add: lookup_def)
next
  case (Cons x xs c cs)
  then show ?case by (auto simp: lookup_def)
qed

lemma lookup_absent: "l \<notin> set cols \<Longrightarrow> lookup cols row l = NaN"
proof -
  assume "l \<notin> set cols"
  then have "l \<notin> fst ` set (zip cols row)"
    by (auto dest: set_zip_leftD)
  then have "map_of (zip cols row) l = None"
    by (simp add: map_of_eq_None_iff)
  then show ?thesis by (simp add: lookup_def)
qed

lemma length_put: "length (put cols l v row) = min (length cols) (length row)"
  by (simp add: put_def)

lemma columns_assign:
  "set (columns (assign l f df)) = insert l (set (columns df))"
  by (auto simp: assign_def)

lemma well_formed_assign: "well_formed df \<Longrightarrow> well_formed (assign l f df)"
  by (auto simp: well_formed_def assign_def list_all_iff length_put)

lemma well_formed_select: "well_formed df \<Longrightarrow> well_formed (select_rows keep df)"
  by (auto simp: well_formed_def select_rows_def list_all_iff)

lemma assign_lookup:
  assumes "well_formed df"
  shows "map (\<lambda>row. lookup (columns (assign l f df)) row l') (rows (assign l f df)) =
         map (\<lambda>row. if l' = l then f row else lookup (columns df) row l') (rows df)"
proof (cases "l \<in> set (columns df)")
  case True
  with assms show ?thesis
    by (auto simp: assign_def well_formed_def list_all_iff lookup_put)
next
  case False
  with assms show ?thesis
    by (auto simp: assign_def well_formed_def list_all_iff lookup_snoc lookup_absent)
qed

text \<open>The pair of item columns through an assignment and through a selection of rows.\<close>

lemma map_pair: "map (\<lambda>x. (f x, g x)) xs = zip (map f xs) (map g xs)"
  by (induction xs) auto

lemma view_assign:
  assumes "well_formed df"
  shows "item_view (assign l f df) =
         map (\<lambda>row. (if l = ''Articulo'' then f row else lookup (columns df) row ''Articulo'',
                      if l = ''Descripcion'' then f row
                      else lookup (columns df) row ''Descripcion'')) (rows df)"
proof -
  have "item_view (assign l f df) =
        zip (map (\<lambda>row. lookup (columns (assign l f df)) row ''Articulo'') (rows (assign l f df)))
            (map (\<lambda>row. lookup (columns (assign l f df)) row ''Descripcion'')
               (rows (assign l f df)))"
    unfolding item_view_def by (rule map_pair)
  also have "\<dots> =
        zip (map (\<lambda>row. if ''Articulo'' = l then f row else lookup (columns df) row ''Articulo'')
               (rows df))
            (map (\<lambda>row. if ''Descripcion'' = l then f row
                         else lookup (columns df) row ''Descripcion'') (rows df))"
    by (simp only: assign_lookup [OF assms])
  also have "\<dots> =
        map (\<lambda>row. (if ''Articulo'' = l then f row else lookup (columns df) row ''Articulo'',
                     if ''Descripcion'' = l then f row
                     else lookup (columns df) row ''Descripcion'')) (rows df)"
    by (rule map_pair [symmetric])
  finally show ?thesis by (simp add: eq_commute)
qed

lemma view_assign_other:
  assumes "well_formed df" and "l \<noteq> ''Articulo''" and "l \<noteq> ''Descripcion''"
  shows "item_view (assign l f df) = item_view df"
  using assms(2,3) by (subst view_assign [OF assms(1)]) (simp add: item_view_def)

lemma view_assign_articulo:
  assumes "well_formed df"
  shows "item_view (assign ''Articulo'' (\<lambda>row. h (lookup (columns df) row ''Articulo'')) df) =
         map (\<lambda>(a, b). (h a, b)) (item_view df)"
  by (subst view_assign [OF assms]) (simp add: item_view_def)

lemma view_assign_descripcion:
  assumes "well_formed df"
  shows "item_view (assign ''Descripcion'' (\<lambda>row. h (lookup (columns df) row ''Descripcion'')) df) =
         map (\<lambda>(a, b). (a, h b)) (item_view df)"
  by (subst view_assign [OF assms]) (simp add: item_view_def)

lemma view_select:
  assumes "\<And>row. keep row = Q (lookup (columns df) row ''Articulo'',
                                 lookup (columns df) row ''Descripcion'')"
  shows "item_view (select_rows keep df) = filter Q (item_view df)"
proof -
  have "keep = (\<lambda>row. Q (lookup (columns df) row ''Articulo'',
                           lookup (columns df) row ''Descripcion''))"
    by (rule ext) (rule assms)
  then show ?thesis
    by (simp add: item_view_def select_rows_def filter_map comp_def)
qed

lemma columns_select: "columns (select_rows keep df) = columns df"
  by (simp add: select_rows_def)

lemma length_view: "length (item_view df) = length (rows df)"
  by (simp add: item_view_def)

text \<open>
  The pair of item columns of the clean table, from that of the table given, and the
  labels of the clean table.
\<close>

lemma clean_data_view:
  assumes wf: "well_formed df"
  shows "item_view (clean_data E df) =
         map (\<lambda>(a, b). (a, if ''Descripcion'' \<in> set (columns df) then b
                            else Str ''SIN DESCRIPCION''))
           (filter (\<lambda>(a, b). (''Articulo'' \<in> set (columns df) \<longrightarrow> no_total E a) \<and>
                              (''Descripcion'' \<in> set (columns df) \<longrightarrow> no_total E b))
              (map (\<lambda>(a, b). (a, if ''Descripcion'' \<in> set (columns df) then strip_upper E b
                                 else b))
                 (filter (\<lambda>(a, b). ''Articulo'' \<in> set (columns df) \<longrightarrow> valid_item a)
                    (map (\<lambda>(a, b). (if ''Articulo'' \<in> set (columns df) then strip_upper E a
                                       else a, b))
                       (item_view df)))))"
    (is "_ = ?R")
    and "set (columns (clean_data E df)) =
         set (columns df) \<union> {''Venta_Neta'', ''Cantidad'', ''Descripcion''}"
proof -
  define hasA where "hasA = (''Articulo'' \<in> set (columns df))"
  define hasD where "hasD = (''Descripcion'' \<in> set (columns df))"
  define df1 where "df1 =
    (case total_column E (columns df) of
       Some c \<Rightarrow> assign ''Venta_Neta'' (\<lambda>row. to_numeric_fillna0 E (lookup (columns df) row c)) df
     | None \<Rightarrow> assign ''Venta_Neta'' (\<lambda>row. Num 0) df)"
  define df2 where "df2 =
    (if ''Cantidad'' \<in> set (columns df1)
     then assign ''Cantidad'' (\<lambda>row. to_numeric_fillna0 E (lookup (columns df1) row ''Cantidad'')) df1
     else assign ''Cantidad'' (\<lambda>row. Num 0) df1)"
  define df3 where "df3 =
    (if ''Precio'' \<in> set (columns df2)
     then assign ''Precio'' (\<lambda>row. to_numeric_fillna0 E (lookup (columns df2) row ''Precio'')) df2
     else df2)"
  define df4 where "df4 =
    (if ''Articulo'' \<in> set (columns df3)
     then select_rows (mask_valido (columns df3))
            (assign ''Articulo'' (\<lambda>row. strip_upper E (lookup (columns df3) row ''Articulo'')) df3)
     else df3)"
  define df5 where "df5 =
    (if ''Descripcion'' \<in> set (columns df4)
     then assign ''Descripcion'' (\<lambda>row. strip_upper E (lookup (columns df4) row ''Descripcion'')) df4
     else df4)"
  define df6 where "df6 = select_rows (mask_no_total E (columns df5)) df5"
  define df7 where "df7 =
    (if ''Descripcion'' \<notin> set (columns df6)
     then assign ''Descripcion'' (\<lambda>row. Str ''SIN DESCRIPCION'') df6
     else df6)"
  have result: "clean_data E df = df7"
    unfolding clean_data_def
    apply (subst Let_def) apply (fold df1_def)
    apply (subst Let_def) apply (fold df2_def)
    apply (subst Let_def) apply (fold df3_def)
    apply (subst Let_def) apply (fold df4_def)
    apply (subst Let_def) apply (fold df5_def)
    apply (subst Let_def) apply (fold df6_def)
    apply (subst Let_def) apply (fold df7_def)
    apply (rule refl)
    done
  have s1: "well_formed df1" "item_view df1 = item_view df"
    "set (columns df1) = insert ''Venta_Neta'' (set (columns df))"
    unfolding df1_def
    by (simp_all add: well_formed_assign wf view_assign_other columns_assign split: option.splits)
  have s2: "well_formed df2" "item_view df2 = item_view df1"
    "set (columns df2) = insert ''Cantidad'' (set (columns df1))"
    unfolding df2_def
    by (simp_all add: well_formed_assign s1(1) view_assign_other columns_assign)
  have s3: "well_formed df3" "item_view df3 = item_view df2"
    "(''Articulo'' \<in> set (columns df3)) = (''Articulo'' \<in> set (columns df2))"
    "(''Descripcion'' \<in> set (columns df3)) = (''Descripcion'' \<in> set (columns df2))"
    unfolding df3_def
    by (simp_all add: well_formed_assign s2(1) view_assign_other columns_assign)
  have a3: "(''Articulo'' \<in> set (columns df3)) = hasA"
    and d3: "(''Descripcion'' \<in> set (columns df3)) = hasD"
    by (simp_all add: s3 s2 s1 hasA_def hasD_def)
  have v3: "item_view df3 = item_view df" by (simp add: s3 s2 s1)
  have s4: "well_formed df4"
    "item_view df4 =
       filter (\<lambda>(a, b). hasA \<longrightarrow> valid_item a)
         (map (\<lambda>(a, b). (if hasA then strip_upper E a else a, b)) (item_view df))"
    "(''Articulo'' \<in> set (columns df4)) = hasA"
    "(''Descripcion'' \<in> set (columns df4)) = hasD"
  proof -
    define mid where
      "mid = assign ''Articulo'' (\<lambda>row. strip_upper E (lookup (columns df3) row ''Articulo'')) df3"
    have m: "well_formed mid"
      "item_view mid = map (\<lambda>(a, b). (strip_upper E a, b)) (item_view df)"
      "set (columns mid) = insert ''Articulo'' (set (columns df3))"
      unfolding mid_def
      by (simp_all add: well_formed_assign s3(1) view_assign_articulo columns_assign v3)
    show "well_formed df4"
      unfolding df4_def mid_def [symmetric]
      by (simp add: well_formed_select m(1) s3(1))
    show "(''Articulo'' \<in> set (columns df4)) = hasA"
      unfolding df4_def mid_def [symmetric]
      using a3 by (simp add: columns_select m(3))
    show "(''Descripcion'' \<in> set (columns df4)) = hasD"
      unfolding df4_def mid_def [symmetric]
      using d3 by (simp add: columns_select m(3))
    show "item_view df4 =
       filter (\<lambda>(a, b). hasA \<longrightarrow> valid_item a)
         (map (\<lambda>(a, b). (if hasA then strip_upper E a else a, b)) (item_view df))"
    proof (cases hasA)
      case True
      then have same: "columns mid = columns df3"
        using a3 by (simp add: mid_def assign_def)
      have "item_view (select_rows (mask_valido (columns df3)) mid) =
            filter (\<lambda>(a, b). valid_item a) (item_view mid)"
        by (rule view_select) (simp add: same mask_valido_def valid_item_def)
      with True a3 show ?thesis
        unfolding df4_def mid_def [symmetric] by (simp add: m(2))
    next
      case False
      with a3 show ?thesis
        unfolding df4_def by (simp add: v3)
    qed
  qed
  have s5: "well_formed df5"
    "item_view df5 = map (\<lambda>(a, b). (a, if hasD then strip_upper E b else b)) (item_view df4)"
    "(''Articulo'' \<in> set (columns df5)) = hasA"
    "(''Descripcion'' \<in> set (columns df5)) = hasD"
    unfolding df5_def using s4(3,4)
    by (simp_all add: well_formed_assign s4(1) view_assign_descripcion columns_assign)
  have keep: "mask_no_total E (columns df5) row =
      (\<lambda>(a, b). (hasA \<longrightarrow> no_total E a) \<and> (hasD \<longrightarrow> no_total E b))
        (lookup (columns df5) row ''Articulo'', lookup (columns df5) row ''Descripcion'')" for row
    by (simp add: mask_no_total_def no_total_def s5(3,4))
  have s6: "well_formed df6"
    "item_view df6 =
       filter (\<lambda>(a, b). (hasA \<longrightarrow> no_total E a) \<and> (hasD \<longrightarrow> no_total E b)) (item_view df5)"
    "(''Descripcion'' \<in> set (columns df6)) = hasD"
  proof -
    show "well_formed df6" unfolding df6_def by (simp add: well_formed_select s5(1))
    show "(''Descripcion'' \<in> set (columns df6)) = hasD"
      unfolding df6_def by (simp add: columns_select s5(4))
    show "item_view df6 =
       filter (\<lambda>(a, b). (hasA \<longrightarrow> no_total E a) \<and> (hasD \<longrightarrow> no_total E b)) (item_view df5)"
      unfolding df6_def by (rule view_select) (rule keep)
  qed
  have const: "(\<lambda>row. Str ''SIN DESCRIPCION'') =
               (\<lambda>row. (\<lambda>b. Str ''SIN DESCRIPCION'') (lookup (columns df6) row ''Descripcion''))"
    by simp
  have s7: "item_view df7 =
       map (\<lambda>(a, b). (a, if hasD then b else Str ''SIN DESCRIPCION'')) (item_view df6)"
  proof (cases hasD)
    case True
    with s6(3) show ?thesis unfolding df7_def by simp
  next
    case False
    have "item_view (assign ''Descripcion'' (\<lambda>row. Str ''SIN DESCRIPCION'') df6) =
          map (\<lambda>(a, b). (a, Str ''SIN DESCRIPCION'')) (item_view df6)"
      by (subst const) (rule view_assign_descripcion [OF s6(1)])
    with False s6(3) show ?thesis unfolding df7_def by simp
  qed
  show "item_view (clean_data E df) = ?R"
    unfolding result s7 s6(2) s5(2) s4(2) hasA_def hasD_def ..
  have c3: "set (columns df3) = set (columns df2)"
    unfolding df3_def by (auto simp: columns_assign)
  have c4: "set (columns df4) = set (columns df3)"
    unfolding df4_def by (auto simp: columns_assign columns_select)
  have c5: "set (columns df5) = set (columns df4)"
    unfolding df5_def by (auto simp: columns_assign)
  have c6: "set (columns df6) = set (columns df5)"
    unfolding df6_def by (simp add: columns_select)
  have c7: "set (columns df7) = insert ''Descripcion'' (set (columns df6))"
    unfolding df7_def by (auto simp: columns_assign)
  show "set (columns (clean_data E df)) =
        set (columns df) \<union> {''Venta_Neta'', ''Cantidad'', ''Descripcion''}"
    unfolding result c7 c6 c5 c4 c3 s2(3) s1(3) by blast
qed

text \<open>Assignments and selections work row by row, and so does the Cleaner.\<close>

lemma rowwise_id: "rowwise (\<lambda>d. d)"
  unfolding rowwise_def
  by (rule exI [of _ "\<lambda>cols. cols"], rule exI [of _ "\<lambda>cols r. [r]"]) simp

lemma rowwise_assign: "rowwise (\<lambda>d. assign l (f (columns d)) d)"
  unfolding rowwise_def
  by (rule exI [of _ "\<lambda>cols. if l \<in> set cols then cols else cols @ [l]"],
      rule exI [of _ "\<lambda>cols r. [if l \<in> set cols then put cols l (f cols r) r
                                  else r @ [f cols r]]"])
     (simp add: assign_def)

lemma concat_filter: "concat (map (\<lambda>x. if P x then [x] else []) xs) = filter P xs"
  by (induction xs) auto

lemma rowwise_select: "rowwise (\<lambda>d. select_rows (k (columns d)) d)"
  unfolding rowwise_def
  by (rule exI [of _ "\<lambda>cols. cols"],
      rule exI [of _ "\<lambda>cols r. if k cols r then [r] else []"])
     (simp add: select_rows_def concat_filter)

lemma concat_concat_map:
  "concat (concat (map (\<lambda>x. map g (f x)) xs)) = concat (map (\<lambda>r. concat (map g (f r))) xs)"
  by (induction xs) auto

lemma rowwise_comp:
  assumes "rowwise F" and "rowwise F'"
  shows "rowwise (\<lambda>d. F' (F d))"
proof -
  from assms(1) obtain C G where
    F: "\<And>df. F df = \<lparr> columns = C (columns df), rows = concat (map (G (columns df)) (rows df)) \<rparr>"
    unfolding rowwise_def by blast
  from assms(2) obtain C' G' where
    F': "\<And>df. F' df = \<lparr> columns = C' (columns df),
                         rows = concat (map (G' (columns df)) (rows df)) \<rparr>"
    unfolding rowwise_def by blast
  have "F' (F df) = \<lparr> columns = C' (C (columns df)),
          rows = concat (map (\<lambda>r. concat (map (G' (C (columns df))) (G (columns df) r)))
                           (rows df)) \<rparr>" for df
    by (simp add: F F' map_concat comp_def concat_concat_map)
  then show ?thesis
    unfolding rowwise_def
    by (intro exI [of _ "\<lambda>cols. C' (C cols)"]
              exI [of _ "\<lambda>cols r. concat (map (G' (C cols)) (G cols r))"]) simp
qed

lemma rowwise_if:
  assumes "rowwise F" and "rowwise F'"
  shows "rowwise (\<lambda>d. if P (columns d) then F d else F' d)"
proof -
  from assms(1) obtain C G where
    F: "\<And>df. F df = \<lparr> columns = C (columns df), rows = concat (map (G (columns df)) (rows df)) \<rparr>"
    unfolding rowwise_def by blast
  from assms(2) obtain C' G' where
    F': "\<And>df. F' df = \<lparr> columns = C' (columns df),
                         rows = concat (map (G' (columns df)) (rows df)) \<rparr>"
    unfolding rowwise_def by blast
  show ?thesis
    unfolding rowwise_def
    by (intro exI [of _ "\<lambda>cols. if P cols then C cols else C' cols"]
              exI [of _ "\<lambda>cols. if P cols then G cols else G' cols"])
       (simp add: F F')
qed

lemma rowwise_drop:
  assumes "rowwise F"
    and "\<And>r. r \<in> set (rows df) \<Longrightarrow> \<not> q r \<Longrightarrow> rows (F \<lparr> columns = columns df, rows = [r] \<rparr>) = []"
  shows "F (select_rows q df) = F df"
proof -
  from assms(1) obtain C G where
    F: "\<And>df. F df = \<lparr> columns = C (columns df), rows = concat (map (G (columns df)) (rows df)) \<rparr>"
    unfolding rowwise_def by blast
  have gone: "G (columns df) r = []" if "r \<in> set (rows df)" and "\<not> q r" for r
    using assms(2) [OF that] by (simp add: F)
  have "concat (map (G (columns df)) (filter q rs)) = concat (map (G (columns df)) rs)"
    if "set rs \<subseteq> set (rows df)" for rs
    using that by (induction rs) (auto simp: gone)
  then show ?thesis
    by (simp add: F select_rows_def)
qed

lemma rowwise_clean_data: "rowwise (clean_data E)"
proof -
  define S1 where "S1 = (\<lambda>d.
    case total_column E (columns d) of
      Some c \<Rightarrow> assign ''Venta_Neta'' (\<lambda>row. to_numeric_fillna0 E (lookup (columns d) row c)) d
    | None \<Rightarrow> assign ''Venta_Neta'' (\<lambda>row. Num 0) d)"
  define S2 where "S2 = (\<lambda>d.
    if ''Cantidad'' \<in> set (columns d)
    then assign ''Cantidad'' (\<lambda>row. to_numeric_fillna0 E (lookup (columns d) row ''Cantidad'')) d
    else assign ''Cantidad'' (\<lambda>row. Num 0) d)"
  define S3 where "S3 = (\<lambda>d.
    if ''Precio'' \<in> set (columns d)
    then assign ''Precio'' (\<lambda>row. to_numeric_fillna0 E (lookup (columns d) row ''Precio'')) d
    else d)"
  define S4a where "S4a = (\<lambda>d.
    assign ''Articulo'' (\<lambda>row. strip_upper E (lookup (columns d) row ''Articulo'')) d)"
  define S4 where "S4 = (\<lambda>d.
    if ''Articulo'' \<in> set (columns d)
    then select_rows (mask_valido (columns d))
           (assign ''Articulo'' (\<lambda>row. strip_upper E (lookup (columns d) row ''Articulo'')) d)
    else d)"
  define S5 where "S5 = (\<lambda>d.
    if ''Descripcion'' \<in> set (columns d)
    then assign ''Descripcion'' (\<lambda>row. strip_upper E (lookup (columns d) row ''Descripcion'')) d
    else d)"
  define S6 where "S6 = (\<lambda>d. select_rows (mask_no_total E (columns d)) d)"
  define S7 where "S7 = (\<lambda>d.
    if ''Descripcion'' \<notin> set (columns d)
    then assign ''Descripcion'' (\<lambda>row. Str ''SIN DESCRIPCION'') d
    else d)"
  have eq: "clean_data E df = S7 (S6 (S5 (S4 (S3 (S2 (S1 df))))))" for df
  proof -
    define df1 where "df1 = S1 df"
    define df2 where "df2 = S2 df1"
    define df3 where "df3 = S3 df2"
    define df4 where "df4 = S4 df3"
    define df5 where "df5 = S5 df4"
    define df6 where "df6 = S6 df5"
    define df7 where "df7 = S7 df6"
    note d1 = df1_def [unfolded S1_def]
    note d2 = df2_def [unfolded S2_def]
    note d3 = df3_def [unfolded S3_def]
    note d4 = df4_def [unfolded S4_def]
    note d5 = df5_def [unfolded S5_def]
    note d6 = df6_def [unfolded S6_def]
    note d7 = df7_def [unfolded S7_def]
    have "clean_data E df = df7"
      unfolding clean_data_def
      apply (subst Let_def) apply (fold d1)
      apply (subst Let_def) apply (fold d2)
      apply (subst Let_def) apply (fold d3)
      apply (subst Let_def) apply (fold d4)
      apply (subst Let_def) apply (fold d5)
      apply (subst Let_def) apply (fold d6)
      apply (subst Let_def) apply (fold d7)
      apply (rule refl)
      done
    then show ?thesis
      by (simp only: df7_def df6_def df5_def df4_def df3_def df2_def df1_def)
  qed
  have "S1 = (\<lambda>d. assign ''Venta_Neta''
                (\<lambda>row. case total_column E (columns d) of
                          Some c \<Rightarrow> to_numeric_fillna0 E (lookup (columns d) row c)
                        | None \<Rightarrow> Num 0) d)"
    unfolding S1_def by (rule ext) (simp split: option.splits)
  then have r1: "rowwise S1"
    using rowwise_assign [of "''Venta_Neta''"
        "\<lambda>cols row. case total_column E cols of
                       Some c \<Rightarrow> to_numeric_fillna0 E (lookup cols row c) | None \<Rightarrow> Num 0"]
    by simp
  have r2: "rowwise S2"
    unfolding S2_def
    by (rule rowwise_if [of _ _ "\<lambda>cols. ''Cantidad'' \<in> set cols"])
       (rule rowwise_assign [of _ "\<lambda>cols row. to_numeric_fillna0 E (lookup cols row ''Cantidad'')"],
        rule rowwise_assign [of _ "\<lambda>cols row. Num 0"])
  have r3: "rowwise S3"
    unfolding S3_def
    by (rule rowwise_if [of _ _ "\<lambda>cols. ''Precio'' \<in> set cols"])
       (rule rowwise_assign [of _ "\<lambda>cols row. to_numeric_fillna0 E (lookup cols row ''Precio'')"],
        rule rowwise_id)
  have r4a: "rowwise S4a"
    unfolding S4a_def
    by (rule rowwise_assign [of _ "\<lambda>cols row. strip_upper E (lookup cols row ''Articulo'')"])
  have same: "columns (S4a d) = columns d" if "''Articulo'' \<in> set (columns d)" for d
    using that by (simp add: S4a_def assign_def)
  have sel: "rowwise (\<lambda>d. select_rows (mask_valido (columns d)) d)"
    by (rule rowwise_select [of mask_valido])
  have "rowwise (\<lambda>d. select_rows (mask_valido (columns (S4a d))) (S4a d))"
    using rowwise_comp [OF r4a sel] .
  then have "rowwise (\<lambda>d. if ''Articulo'' \<in> set (columns d)
                           then select_rows (mask_valido (columns (S4a d))) (S4a d) else d)"
    using rowwise_if [of "\<lambda>d. select_rows (mask_valido (columns (S4a d))) (S4a d)" "\<lambda>d. d"
        "\<lambda>cols. ''Articulo'' \<in> set cols"] rowwise_id by simp
  moreover have "S4 = (\<lambda>d. if ''Articulo'' \<in> set (columns d)
                           then select_rows (mask_valido (columns (S4a d))) (S4a d) else d)"
    unfolding S4_def by (rule ext) (simp add: same, simp add: S4a_def)
  ultimately have r4: "rowwise S4" by simp
  have r5: "rowwise S5"
    unfolding S5_def
    by (rule rowwise_if [of _ _ "\<lambda>cols. ''Descripcion'' \<in> set cols"])
       (rule rowwise_assign [of _ "\<lambda>cols row. strip_upper E (lookup cols row ''Descripcion'')"],
        rule rowwise_id)
  have r6: "rowwise S6"
    unfolding S6_def by (rule rowwise_select [of "mask_no_total E"])
  have r7: "rowwise S7"
    unfolding S7_def
    by (rule rowwise_if [of _ _ "\<lambda>cols. ''Descripcion'' \<notin> set cols"])
       (rule rowwise_assign [of _ "\<lambda>cols row. Str ''SIN DESCRIPCION''"], rule rowwise_id)
  have c2: "rowwise (\<lambda>d. S2 (S1 d))" using rowwise_comp [OF r1 r2] .
  have c3: "rowwise (\<lambda>d. S3 (S2 (S1 d)))" using rowwise_comp [OF c2 r3] .
  have c4: "rowwise (\<lambda>d. S4 (S3 (S2 (S1 d))))" using rowwise_comp [OF c3 r4] .
  have c5: "rowwise (\<lambda>d. S5 (S4 (S3 (S2 (S1 d)))))" using rowwise_comp [OF c4 r5] .
  have c6: "rowwise (\<lambda>d. S6 (S5 (S4 (S3 (S2 (S1 d))))))" using rowwise_comp [OF c5 r6] .
  have "rowwise (\<lambda>d. S7 (S6 (S5 (S4 (S3 (S2 (S1 d)))))))" using rowwise_comp [OF c6 r7] .
  moreover have "clean_data E = (\<lambda>d. S7 (S6 (S5 (S4 (S3 (S2 (S1 d)))))))"
    by (rule ext) (rule eq)
  ultimately show ?thesis by simp
qed

text \<open>A row with a pattern, cleaned on its own, leaves no row.\<close>

lemma total_row_dropped:
  assumes len: "length r = length cols"
    and keeps: "\<forall>patron \<in> set patrones_totales. \<forall>s.
                  sublist (str_lower E patron) (str_lower E s) \<longrightarrow>
                  sublist (str_lower E patron) (str_lower E (str_upper E (str_strip E s)))"
    and tot: "is_total_row E cols r"
  shows "rows (clean_data E \<lparr> columns = cols, rows = [r] \<rparr>) = []"
proof -
  have wf: "well_formed \<lparr> columns = cols, rows = [r] \<rparr>"
    by (simp add: well_formed_def len)
  have key: "\<not> no_total E (strip_upper E c)" if "contains_total E (astype_str E c)" for c
  proof -
    from that obtain patron where p: "patron \<in> set patrones_totales"
      and sub: "sublist (str_lower E patron) (str_lower E (astype_str E c))"
      unfolding contains_total_def list_ex_iff by blast
    from keeps p sub
    have "sublist (str_lower E patron)
            (str_lower E (str_upper E (str_strip E (astype_str E c))))"
      by blast
    then have "str_contains E patron (strip_upper E c)"
      by (simp add: str_contains_def strip_upper_def)
    with p show ?thesis unfolding no_total_def by blast
  qed
  have "item_view (clean_data E \<lparr> columns = cols, rows = [r] \<rparr>) = []"
    unfolding clean_data_view(1) [OF wf]
    using tot key by (auto simp: item_view_def is_total_row_def)
  then have "length (rows (clean_data E \<lparr> columns = cols, rows = [r] \<rparr>)) = 0"
    by (simp add: length_view [symmetric])
  then show ?thesis by simp
qed

text \<open>No row of the clean table has a pattern in one of the two columns.\<close>

lemma clean_rows_free:
  assumes wf: "well_formed df" and row: "row \<in> set (rows (clean_data E df))"
  shows "''Articulo'' \<in> set (columns df) \<Longrightarrow>
           no_total E (lookup (columns (clean_data E df)) row ''Articulo'')"
    and "''Descripcion'' \<in> set (columns df) \<Longrightarrow>
           no_total E (lookup (columns (clean_data E df)) row ''Descripcion'')"
proof -
  have m: "(lookup (columns (clean_data E df)) row ''Articulo'',
         lookup (columns (clean_data E df)) row ''Descripcion'')
          \<in> set (item_view (clean_data E df))"
    using row by (simp add: item_view_def)
  show "no_total E (lookup (columns (clean_data E df)) row ''Articulo'')"
    if "''Articulo'' \<in> set (columns df)"
    using m that unfolding clean_data_view(1) [OF wf] by auto
  show "no_total E (lookup (columns (clean_data E df)) row ''Descripcion'')"
    if "''Descripcion'' \<in> set (columns df)"
    using m that unfolding clean_data_view(1) [OF wf] by auto
qed

text \<open>The items of the two tables of the engine are items of rows of its argument.\<close>

lemma sales_of_articulo:
  assumes "sales_of df = Some sales" and "s \<in> set sales"
  shows "\<exists>row \<in> set (rows df). lookup (columns df) row ''Articulo'' = Str (Articulo s)"
proof -
  from assms obtain row where row: "row \<in> set (rows df)"
    and s: "sale_of_row (columns df) row = Some s"
    by (auto simp: sales_of_def split: if_splits)
  from s have "lookup (columns df) row ''Articulo'' = Str (Articulo s)"
    by (auto simp: sale_of_row_def split: cell.splits if_splits)
  with row show ?thesis by blast
qed

lemma fact_ventas_articulos:
  "f \<in> set (fact_ventas hc sales) \<Longrightarrow> fact_Articulo f \<in> Articulo ` set sales"
  by (auto simp: fact_ventas_def fact_sums_def group_keys_def round_fact_def Let_def)

lemma pareto_of_sales_articulos:
  assumes "pareto_of_sales hc hdesc sales = Inr (facts, dims)"
  shows "\<forall>f \<in> set facts. fact_Articulo f \<in> Articulo ` set sales"
    and "\<forall>d \<in> set dims. dim_Articulo d \<in> Articulo ` set sales"
proof -
  define cs where "cs = filter (\<lambda>c. cand_Venta_Neta_Total c > 0) (candidates hc hdesc sales)"
  define ranked where "ranked = sort_key (\<lambda>c. - cand_Venta_Neta_Total c) cs"
  define tp where "tp = sum_list (map cand_Venta_Neta_Total ranked)"
  from assms have dims: "dims = pareto_rows tp 0 1 ranked"
    and facts: "set facts \<subseteq> set (fact_ventas hc sales)"
    by (auto simp: pareto_of_sales_def Let_def cs_def ranked_def tp_def split: if_splits)
  show "\<forall>f \<in> set facts. fact_Articulo f \<in> Articulo ` set sales"
  proof
    fix f
    assume "f \<in> set facts"
    with facts have "f \<in> set (fact_ventas hc sales)" ..
    then show "fact_Articulo f \<in> Articulo ` set sales" by (rule fact_ventas_articulos)
  qed
  have "set (map dim_Articulo dims) = set (map cand_Articulo ranked)"
    by (simp only: dims pareto_rows_articulo)
  also have "\<dots> \<subseteq> set (map cand_Articulo (candidates hc hdesc sales))"
    by (auto simp: ranked_def cs_def)
  also have "\<dots> = set (map fact_Articulo (fact_ventas hc sales))"
    by (simp add: candidates_def dim_articulos_keys)
  finally have sub: "set (map dim_Articulo dims) \<subseteq> fact_Articulo ` set (fact_ventas hc sales)"
    by simp
  show "\<forall>d \<in> set dims. dim_Articulo d \<in> Articulo ` set sales"
  proof
    fix d
    assume "d \<in> set dims"
    then have "dim_Articulo d \<in> set (map dim_Articulo dims)" by simp
    with sub have "dim_Articulo d \<in> fact_Articulo ` set (fact_ventas hc sales)" ..
    then obtain f where f: "f \<in> set (fact_ventas hc sales)"
      and eq: "dim_Articulo d = fact_Articulo f"
      by (rule imageE)
    from fact_ventas_articulos [OF f] eq
    show "dim_Articulo d \<in> Articulo ` set sales" by simp
  qed
qed

lemma clean_data_articulo:
  assumes "well_formed df"
  shows "(''Articulo'' \<in> set (columns (clean_data E df))) = (''Articulo'' \<in> set (columns df))"
  by (simp add: clean_data_view(2) [OF assms])

text \<open>
  On ASCII text a pattern found in a cell is found in the cell once it is trimmed and
  uppercased: the patterns start and end with a letter.
\<close>

lemma lower_upper_char:
  "(case map_of (zip upper_letters lower_letters)
          (case map_of (zip lower_letters upper_letters) c of Some d \<Rightarrow> d | None \<Rightarrow> c) of
      Some d \<Rightarrow> d
    | None \<Rightarrow> (case map_of (zip lower_letters upper_letters) c of Some d \<Rightarrow> d | None \<Rightarrow> c)) =
   (case map_of (zip upper_letters lower_letters) c of Some d \<Rightarrow> d | None \<Rightarrow> c)"
  by (simp add: upper_letters_def lower_letters_def)

lemma ascii_lower_upper: "ascii_lower (ascii_upper s) = ascii_lower s"
  unfolding ascii_lower_def ascii_upper_def map_map comp_def
  by (rule map_cong [OF refl]) (rule lower_upper_char)

lemma space_lower_char:
  "ascii_space (case map_of (zip upper_letters lower_letters) c of Some d \<Rightarrow> d | None \<Rightarrow> c) =
   ascii_space c"
  by (simp add: upper_letters_def lower_letters_def ascii_space_def)

lemma ascii_lower_dropWhile:
  "ascii_lower (dropWhile ascii_space s) = dropWhile ascii_space (ascii_lower s)"
  unfolding ascii_lower_def dropWhile_map comp_def space_lower_char ..

lemma ascii_lower_strip: "ascii_lower (ascii_strip s) = ascii_strip (ascii_lower s)"
proof -
  have r: "ascii_lower (rev t) = rev (ascii_lower t)" for t
    by (simp add: ascii_lower_def rev_map)
  show ?thesis
    unfolding ascii_strip_def by (simp only: r ascii_lower_dropWhile)
qed

lemma dropWhile_keeps:
  assumes "p \<noteq> []" and "\<not> P (hd p)"
  shows "\<exists>a'. dropWhile P (a @ p @ b) = a' @ p @ b"
proof (induction a)
  case Nil
  from assms obtain x xs where "p = x # xs" and "\<not> P x" by (cases p) auto
  then have "dropWhile P ([] @ p @ b) = [] @ p @ b" by simp
  then show ?case by (rule exI)
next
  case (Cons y a)
  show ?case
  proof (cases "P y")
    case True
    with Cons show ?thesis by simp
  next
    case False
    then have "dropWhile P ((y # a) @ p @ b) = (y # a) @ p @ b" by simp
    then show ?thesis by (rule exI)
  qed
qed

lemma strip_keeps_sublist:
  assumes sub: "sublist p t" and ne: "p \<noteq> []"
    and first: "\<not> ascii_space (hd p)" and final: "\<not> ascii_space (last p)"
  shows "sublist p (ascii_strip t)"
proof -
  from sub obtain a b where t: "t = a @ p @ b" unfolding sublist_def by blast
  from dropWhile_keeps [of p ascii_space a b, OF ne first] obtain a' where
    l: "dropWhile ascii_space (a @ p @ b) = a' @ p @ b" by blast
  have ne': "rev p \<noteq> []" and first': "\<not> ascii_space (hd (rev p))"
    using ne final by (simp_all add: hd_rev)
  from dropWhile_keeps [of "rev p" ascii_space "rev b" "rev a'", OF ne' first'] obtain b' where
    r: "dropWhile ascii_space (rev b @ rev p @ rev a') = b' @ rev p @ rev a'" by blast
  have "ascii_strip t = a' @ p @ rev b'"
    unfolding ascii_strip_def t l by (simp add: r)
  then show ?thesis unfolding sublist_def by blast
qed

lemma patrones_shape:
  "list_all (\<lambda>patron. ascii_lower patron \<noteq> [] \<and> \<not> ascii_space (hd (ascii_lower patron)) \<and>
                        \<not> ascii_space (last (ascii_lower patron))) patrones_totales"
  by code_simp

lemma ascii_keeps_totals:
  assumes p: "patron \<in> set patrones_totales"
    and sub: "sublist (ascii_lower patron) (ascii_lower s)"
  shows "sublist (ascii_lower patron) (ascii_lower (ascii_upper (ascii_strip s)))"
proof -
  from patrones_shape p have shape: "ascii_lower patron \<noteq> []"
    "\<not> ascii_space (hd (ascii_lower patron))" "\<not> ascii_space (last (ascii_lower patron))"
    unfolding list_all_iff by blast+
  have "ascii_lower (ascii_upper (ascii_strip s)) = ascii_strip (ascii_lower s)"
    by (simp only: ascii_lower_upper ascii_lower_strip)
  with strip_keeps_sublist [OF sub shape] show ?thesis by simp
qed

section \<open>Claims about the Cleaner\<close>

text \<open>
  C4. Let the table be well formed with pairwise distinct labels, and let trimming and
  uppercasing keep a pattern that a text contains (as they do in Python: each pattern
  starts and ends with a letter). A row whose \<^verbatim>\<open>Articulo\<close> or
  \<^verbatim>\<open>Descripcion\<close> text contains one of the five patterns, in any case, is dropped:
  the clean table is the one the Cleaner makes of the table without these rows, and such
  a row cleaned on its own leaves no row. No row of the clean table has a pattern in
  \<^verbatim>\<open>Articulo\<close> or in a \<^verbatim>\<open>Descripcion\<close> it came with, and no row of the
  fact table or of the dimension table made of the clean table has an item with a
  pattern. In \<open>example_table\<close> the row with \<^verbatim>\<open>Articulo\<close>
  \<^verbatim>\<open>TOTAL GENERAL\<close> and the total 50000 is such a row.
\<close>

theorem total_rows_dropped:
  assumes labels: "distinct (columns df)" and wf: "well_formed df"
    and keeps: "\<forall>patron \<in> set patrones_totales. \<forall>s.
                  sublist (str_lower E patron) (str_lower E s) \<longrightarrow>
                  sublist (str_lower E patron) (str_lower E (str_upper E (str_strip E s)))"
  shows "clean_data E (select_rows (\<lambda>row. \<not> is_total_row E (columns df) row) df) =
           clean_data E df \<and>
         (\<forall>row \<in> set (rows df). is_total_row E (columns df) row \<longrightarrow>
            rows (clean_data E \<lparr> columns = columns df, rows = [row] \<rparr>) = []) \<and>
         (\<forall>row \<in> set (rows (clean_data E df)).
            (''Articulo'' \<in> set (columns df) \<longrightarrow>
               no_total E (lookup (columns (clean_data E df)) row ''Articulo'')) \<and>
            (''Descripcion'' \<in> set (columns df) \<longrightarrow>
               no_total E (lookup (columns (clean_data E df)) row ''Descripcion''))) \<and>
         (\<forall>facts dims. calculate_pareto (clean_data E df) = Inr (facts, dims) \<longrightarrow>
            (\<forall>f \<in> set facts. \<not> contains_total E (fact_Articulo f)) \<and>
            (\<forall>d \<in> set dims. \<not> contains_total E (dim_Articulo d)))"
proof (intro conjI allI impI ballI)
  fix row
  assume "row \<in> set (rows df)" and "is_total_row E (columns df) row"
  then have "length row = length (columns df)" and "is_total_row E (columns df) row"
    using wf by (auto simp: well_formed_def list_all_iff)
  then show "rows (clean_data E \<lparr> columns = columns df, rows = [row] \<rparr>) = []"
    using keeps by (intro total_row_dropped)
next
  fix row
  assume "row \<in> set (rows (clean_data E df))" and "''Articulo'' \<in> set (columns df)"
  then show "no_total E (lookup (columns (clean_data E df)) row ''Articulo'')"
    by (rule clean_rows_free(1) [OF wf])
next
  fix row
  assume "row \<in> set (rows (clean_data E df))" and "''Descripcion'' \<in> set (columns df)"
  then show "no_total E (lookup (columns (clean_data E df)) row ''Descripcion'')"
    by (rule clean_rows_free(2) [OF wf])
next
  show "clean_data E (select_rows (\<lambda>row. \<not> is_total_row E (columns df) row) df) =
        clean_data E df"
  proof (rule rowwise_drop [OF rowwise_clean_data])
    fix r
    assume "r \<in> set (rows df)" and "\<not> \<not> is_total_row E (columns df) r"
    then have "length r = length (columns df)" and "is_total_row E (columns df) r"
      using wf by (auto simp: well_formed_def list_all_iff)
    then show "rows (clean_data E \<lparr> columns = columns df, rows = [r] \<rparr>) = []"
      using keeps by (intro total_row_dropped)
  qed
next
  fix facts dims
  assume run: "calculate_pareto (clean_data E df) = Inr (facts, dims)"
  then obtain sales where sales: "sales_of (clean_data E df) = Some sales"
    and eng: "pareto_of_sales (''Cantidad'' \<in> set (columns (clean_data E df)))
                (''Descripcion'' \<in> set (columns (clean_data E df))) sales = Inr (facts, dims)"
    using calculate_pareto_Inr by blast
  from run have "''Articulo'' \<in> set (columns (clean_data E df))"
    by (auto simp: calculate_pareto_def split: if_splits)
  then have has: "''Articulo'' \<in> set (columns df)"
    by (simp add: clean_data_articulo [OF wf])
  have free: "\<not> contains_total E (Articulo s)" if "s \<in> set sales" for s
  proof -
    from sales_of_articulo [OF sales that] obtain row
      where row: "row \<in> set (rows (clean_data E df))"
        and eq: "lookup (columns (clean_data E df)) row ''Articulo'' = Str (Articulo s)"
      by blast
    from clean_rows_free(1) [OF wf row has] eq have "no_total E (Str (Articulo s))"
      by simp
    then show ?thesis
      by (simp add: no_total_def contains_total_def str_contains_def list_ex_iff)
  qed
  {
    fix f
    assume "f \<in> set facts"
    with pareto_of_sales_articulos(1) [OF eng]
    have "fact_Articulo f \<in> Articulo ` set sales" ..
    then obtain s where "s \<in> set sales" and "fact_Articulo f = Articulo s"
      by (rule imageE)
    with free [of s] show "\<not> contains_total E (fact_Articulo f)" by simp
  }
  {
    fix d
    assume "d \<in> set dims"
    with pareto_of_sales_articulos(2) [OF eng]
    have "dim_Articulo d \<in> Articulo ` set sales" ..
    then obtain s where "s \<in> set sales" and "dim_Articulo d = Articulo s"
      by (rule imageE)
    with free [of s] show "\<not> contains_total E (dim_Articulo d)" by simp
  }
qed

theorem total_rows_dropped_witness:
  "distinct (columns example_table) \<and> well_formed example_table \<and>
   is_total_row ascii_runtime (columns example_table)
     [Str ''TOTAL GENERAL'', NaN, Num 50000, Str ''SUR''] \<and>
   clean_data ascii_runtime \<lparr> columns = columns example_table,
     rows = [[Str ''TOTAL GENERAL'', NaN, Num 50000, Str ''SUR'']] \<rparr> =
     \<lparr> columns = columns example_clean, rows = [] \<rparr> \<and>
   clean_data ascii_runtime example_table = example_clean \<and>
   clean_data ascii_runtime
     (select_rows (\<lambda>row. \<not> is_total_row ascii_runtime (columns example_table) row)
        example_table) = example_clean \<and>
   calculate_pareto example_clean = Inr (example_facts, example_dims) \<and>
   list_all (\<lambda>f. \<not> contains_total ascii_runtime (fact_Articulo f)) example_facts \<and>
   list_all (\<lambda>d. \<not> contains_total ascii_runtime (dim_Articulo d)) example_dims"
proof -
  have d: "distinct (columns example_table)" by code_simp
  have wf: "well_formed example_table" by code_simp
  have keeps: "\<forall>patron \<in> set patrones_totales. \<forall>s.
      sublist (str_lower ascii_runtime patron) (str_lower ascii_runtime s) \<longrightarrow>
      sublist (str_lower ascii_runtime patron)
        (str_lower ascii_runtime (str_upper ascii_runtime (str_strip ascii_runtime s)))"
    by (simp add: ascii_runtime_def ascii_keeps_totals)
  have tot: "is_total_row ascii_runtime (columns example_table)
     [Str ''TOTAL GENERAL'', NaN, Num 50000, Str ''SUR'']"
    by code_simp
  have one: "clean_data ascii_runtime \<lparr> columns = columns example_table,
     rows = [[Str ''TOTAL GENERAL'', NaN, Num 50000, Str ''SUR'']] \<rparr> =
     \<lparr> columns = columns example_clean, rows = [] \<rparr>"
    by code_simp
  have clean: "clean_data ascii_runtime example_table = example_clean" by code_simp
  have run: "calculate_pareto example_clean = Inr (example_facts, example_dims)" by code_simp
  note T = total_rows_dropped [OF d wf keeps]
  from T have same: "clean_data ascii_runtime
     (select_rows (\<lambda>row. \<not> is_total_row ascii_runtime (columns example_table) row)
        example_table) = example_clean"
    unfolding clean by (rule conjunct1)
  from T run have "(\<forall>f \<in> set example_facts. \<not> contains_total ascii_runtime (fact_Articulo f)) \<and>
    (\<forall>d \<in> set example_dims. \<not> contains_total ascii_runtime (dim_Articulo d))"
    unfolding clean by blast
  then have free: "list_all (\<lambda>f. \<not> contains_total ascii_runtime (fact_Articulo f)) example_facts"
    "list_all (\<lambda>d. \<not> contains_total ascii_runtime (dim_Articulo d)) example_dims"
    unfolding list_all_iff by blast+
  from d wf tot one clean same run free show ?thesis by (intro conjI)
qed

section \<open>Claims about extraction and the pipeline\<close>

text \<open>The loop over the files treats each file on its own.\<close>

lemma load_files_append:
  "load_files E (xs @ ys) =
     (fst (load_files E xs) @ fst (load_files E ys), snd (load_files E xs) @ snd (load_files E ys))"
  by (induction xs) (auto split: prod.splits sum.splits)

text \<open>
  C3, as the claim states it, fails for a normalization error. Normalization is not run
  file by file inside the \<^verbatim>\<open>try\<close> of the loop: \<^verbatim>\<open>run_pipeline\<close> runs it once,
  on the consolidated table, outside any handler. The summary sheet is read without
  error, and on its own it fails normalization (no item column) and the run ends with
  \<^verbatim>\<open>KeyError\<close>. Next to the sales sheet it is neither logged nor skipped: its column
  \<^verbatim>\<open>Total\<close> becomes \<^verbatim>\<open>Total_precio\<close> of the consolidated table, the Cleaner
  reads the totals there, the row of the sales sheet gets the total 0, and the run that
  returns two tables for the sales sheet alone ends with \<^verbatim>\<open>ValueError\<close>.
\<close>

theorem normalization_failure_aborts:
  "smart_read_csv ascii_runtime (reads_as summary_file) = Inr summary_file \<and>
   super_normalize_columns ascii_runtime
     (assign ''Sucursal'' (\<lambda>row. Str (str_upper ascii_runtime ''a'')) summary_file) = Inl KeyError \<and>
   run_pipeline ascii_runtime [(''a'', reads_as summary_file)] = Inl KeyError \<and>
   run_pipeline ascii_runtime [(''b'', reads_as sales_file)] = Inr sales_run \<and>
   load_files ascii_runtime [(''a'', reads_as summary_file), (''b'', reads_as sales_file)] =
     ([assign ''Sucursal'' (\<lambda>row. Str ''A'') summary_file,
       assign ''Sucursal'' (\<lambda>row. Str ''B'') sales_file], []) \<and>
   run_pipeline ascii_runtime [(''a'', reads_as summary_file), (''b'', reads_as sales_file)] =
     Inl ValueError"
  by code_simp

text \<open>
  C3, amended. A file that \<^verbatim>\<open>smart_read_csv\<close> cannot read is logged and skipped:
  the tables loaded are those of the other files, the name of the file is added to the
  log, and when another file was given, extraction and the whole run give what they give
  for the other files; when it was the only file the run ends with
  \<^verbatim>\<open>ValueError\<close>. A \<^verbatim>\<open>KeyError\<close> of normalization, which is run on the
  consolidated table, ends the run.
\<close>

theorem read_failure_skipped:
  assumes "smart_read_csv E read_csv = Inl e"
  shows "load_files E (before @ (stem, read_csv) # after) =
           (fst (load_files E (before @ after)),
            snd (load_files E before) @ stem # snd (load_files E after)) \<and>
         (before @ after \<noteq> [] \<longrightarrow>
            extract_all_files E (before @ (stem, read_csv) # after) =
              extract_all_files E (before @ after) \<and>
            run_pipeline E (before @ (stem, read_csv) # after) = run_pipeline E (before @ after)) \<and>
         (before @ after = [] \<longrightarrow>
            run_pipeline E (before @ (stem, read_csv) # after) = Inl ValueError) \<and>
         (\<forall>files raw_df. extract_all_files E files = Inr raw_df \<longrightarrow>
            super_normalize_columns E raw_df = Inl KeyError \<longrightarrow>
            run_pipeline E files = Inl KeyError)"
proof (intro conjI impI allI)
  have one: "load_files E ((stem, read_csv) # after) = (fst (load_files E after), stem # snd (load_files E after))"
    using assms by (cases "load_files E after") simp
  show l: "load_files E (before @ (stem, read_csv) # after) =
           (fst (load_files E (before @ after)),
            snd (load_files E before) @ stem # snd (load_files E after))"
    by (simp only: load_files_append [of E before] one fst_conv snd_conv)
  {
    assume ne: "before @ after \<noteq> []"
    then show x: "extract_all_files E (before @ (stem, read_csv) # after) =
              extract_all_files E (before @ after)"
      by (simp add: extract_all_files_def l Let_def)
    show "run_pipeline E (before @ (stem, read_csv) # after) = run_pipeline E (before @ after)"
      by (simp only: run_pipeline_def x)
  }
  {
    assume "before @ after = []"
    then show "run_pipeline E (before @ (stem, read_csv) # after) = Inl ValueError"
      using assms by (simp add: run_pipeline_def extract_all_files_def)
  }
  {
    fix files raw_df
    assume "extract_all_files E files = Inr raw_df" "super_normalize_columns E raw_df = Inl KeyError"
    then show "run_pipeline E files = Inl KeyError"
      by (simp add: run_pipeline_def)
  }
qed

theorem read_failure_skipped_witness:
  "smart_read_csv ascii_runtime unreadable = Inl ParseError \<and>
   load_files ascii_runtime [(''a'', unreadable), (''b'', reads_as sales_file)] =
     ([assign ''Sucursal'' (\<lambda>row. Str ''B'') sales_file], [''a'']) \<and>
   run_pipeline ascii_runtime [(''b'', reads_as sales_file)] = Inr sales_run \<and>
   run_pipeline ascii_runtime [(''a'', unreadable), (''b'', reads_as sales_file)] = Inr sales_run \<and>
   run_pipeline ascii_runtime [(''a'', unreadable)] = Inl ValueError"
proof -
  have bad: "smart_read_csv ascii_runtime unreadable = Inl ParseError" by code_simp
  have alone: "run_pipeline ascii_runtime [(''b'', reads_as sales_file)] = Inr sales_run"
    by code_simp
  have logged: "load_files ascii_runtime [(''b'', reads_as sales_file)] =
     ([assign ''Sucursal'' (\<lambda>row. Str ''B'') sales_file], [])"
    by code_simp
  note T = read_failure_skipped [OF bad, of "[]" "''a''" "[(''b'', reads_as sales_file)]"]
  note U = read_failure_skipped [OF bad, of "[]" "''a''" "[]"]
  from T logged have l: "load_files ascii_runtime [(''a'', unreadable), (''b'', reads_as sales_file)] =
     ([assign ''Sucursal'' (\<lambda>row. Str ''B'') sales_file], [''a''])"
    by simp
  from T alone have r: "run_pipeline ascii_runtime [(''a'', unreadable), (''b'', reads_as sales_file)] =
     Inr sales_run"
    by simp
  from U have v: "run_pipeline ascii_runtime [(''a'', unreadable)] = Inl ValueError"
    by simp
  from bad l alone r v show ?thesis by (intro conjI)
qed

end
